theory Spec2Isabelle
  imports Main "HOL-Library.Word"
begin

section \<open>JavaScript values\<close>

text \<open>
  The program under verification is \<^verbatim>\<open>run_scraper.js\<close>, a Node.js script of one
  asynchronous function \<^verbatim>\<open>main\<close>. Its behaviour is fixed by the language primitives it
  calls (\<^verbatim>\<open>process.argv\<close>, \<^verbatim>\<open>!\<close>, \<^verbatim>\<open>await\<close>, property access, template literals,
  \<^verbatim>\<open>JSON.stringify\<close>, \<^verbatim>\<open>console.log\<close>, \<^verbatim>\<open>console.error\<close>, \<^verbatim>\<open>process.exit\<close>,
  \<^verbatim>\<open>try\<close>/\<^verbatim>\<open>catch\<close>), so these are embedded first, following ECMA-262 and the Node.js
  documentation, and \<^verbatim>\<open>main\<close> is then transcribed statement by statement.

  A JavaScript string is a sequence of 16-bit code units.
\<close>

type_synonym jsstring = "16 word list"

text \<open>String literals of the source, written as Isabelle strings.\<close>

definition js :: "string \<Rightarrow> jsstring" where
  "js s = map of_char s"

text \<open>
  The values the external module can hand to the program, as a result or as a thrown
  value. \<open>JNum w\<close> is the Number with the integer value \<open>sint w\<close>: the type holds the
  integers from \<open>- (2 ^ 53)\<close> to \<open>2 ^ 53 - 1\<close>, where a double is exact and
  \<^verbatim>\<open>Number::toString\<close> gives the decimal digits. Larger Numbers (printed with an exponent
  from \<open>10 ^ 21\<close> on), Numbers with a fractional part, \<^verbatim>\<open>NaN\<close> and the infinities are
  floating point and left out, as are functions and objects with accessors, cycles or a
  prototype of their own. \<open>JObject kvs\<close> is a plain object with the enumerable own
  properties \<open>kvs\<close>, in enumeration order. \<open>JError name message\<close> is an instance of the
  built-in error class \<open>name\<close>, whose \<^verbatim>\<open>message\<close> property is not enumerable.
  \<open>JThrowing e\<close> is an object with a method \<^verbatim>\<open>toJSON\<close> that throws the value \<open>e\<close>.
\<close>

datatype jsval =
    JUndefined
  | JNull
  | JBool bool
  | JNum "54 word"
  | JBigInt int
  | JStr jsstring
  | JSymbol
  | JArray "jsval list"
  | JObject "(jsstring \<times> jsval) list"
  | JError jsstring jsstring
  | JThrowing jsval

definition TypeError :: "jsstring \<Rightarrow> jsval" where
  "TypeError message = JError (js ''TypeError'') message"

text \<open>\<^verbatim>\<open>ToBoolean\<close>, the test behind \<^verbatim>\<open>!searchTerm\<close>.\<close>

fun ToBoolean :: "jsval \<Rightarrow> bool" where
  "ToBoolean JUndefined = False"
| "ToBoolean JNull = False"
| "ToBoolean (JBool b) = b"
| "ToBoolean (JNum n) = (n \<noteq> 0)"
| "ToBoolean (JBigInt n) = (n \<noteq> 0)"
| "ToBoolean (JStr s) = (s \<noteq> [])"
| "ToBoolean JSymbol = True"
| "ToBoolean (JArray xs) = True"
| "ToBoolean (JObject kvs) = True"
| "ToBoolean (JError name message) = True"
| "ToBoolean (JThrowing e) = True"

text \<open>
  Decimal digits of an integer: \<^verbatim>\<open>BigInt::toString\<close>, and \<^verbatim>\<open>Number::toString\<close> on the
  integers of \<open>JNum\<close>.
\<close>

fun digits :: "nat \<Rightarrow> jsstring" where
  "digits n = (if n < 10 then [of_nat (48 + n)] else digits (n div 10) @ [of_nat (48 + n mod 10)])"

declare digits.simps [simp del]

definition int_toString :: "int \<Rightarrow> jsstring" where
  "int_toString n = (if n < 0 then 0x2D # digits (nat (- n)) else digits (nat n))"

fun join :: "jsstring \<Rightarrow> jsstring list \<Rightarrow> jsstring" where
  "join sep [] = []"
| "join sep [x] = x"
| "join sep (x # y # ys) = x @ sep @ join sep (y # ys)"

text \<open>
  \<^verbatim>\<open>ToString\<close>, applied by the template literal to \<^verbatim>\<open>error.message\<close>. It throws on a
  Symbol. An array is joined with commas (\<^verbatim>\<open>Array.prototype.join\<close>: \<^verbatim>\<open>undefined\<close> and
  \<^verbatim>\<open>null\<close> elements give the empty string). A plain object gives
  \<^verbatim>\<open>[object Object]\<close> through \<^verbatim>\<open>Object.prototype.toString\<close>, unless it has an own property
  \<^verbatim>\<open>toString\<close>: no value of \<open>jsval\<close> is callable, and the inherited \<^verbatim>\<open>valueOf\<close> returns
  the object itself, so \<^verbatim>\<open>OrdinaryToPrimitive\<close> throws. The left summand is the thrown
  value.
\<close>

fun ToString :: "jsval \<Rightarrow> jsval + jsstring"
  and join_elements :: "jsval list \<Rightarrow> jsval + jsstring list"
where
  "ToString JUndefined = Inr (js ''undefined'')"
| "ToString JNull = Inr (js ''null'')"
| "ToString (JBool b) = Inr (if b then js ''true'' else js ''false'')"
| "ToString (JNum w) = Inr (int_toString (sint w))"
| "ToString (JBigInt n) = Inr (int_toString n)"
| "ToString (JStr s) = Inr s"
| "ToString JSymbol = Inl (TypeError (js ''Cannot convert a Symbol value to a string''))"
| "ToString (JArray xs) =
     (case join_elements xs of Inl e \<Rightarrow> Inl e | Inr parts \<Rightarrow> Inr (join (js '','') parts))"
| "ToString (JObject kvs) =
     (if js ''toString'' \<in> set (map fst kvs)
      then Inl (TypeError (js ''Cannot convert object to primitive value''))
      else Inr (js ''[object Object]''))"
| "ToString (JError name message) =
     Inr (if name = [] then message else if message = [] then name
          else name @ js '': '' @ message)"
| "ToString (JThrowing e) = Inr (js ''[object Object]'')"
| "join_elements [] = Inr []"
| "join_elements (x # xs) =
     (case (if x = JUndefined \<or> x = JNull then Inr [] else ToString x) of
        Inl e \<Rightarrow> Inl e
      | Inr s \<Rightarrow> (case join_elements xs of Inl e \<Rightarrow> Inl e | Inr parts \<Rightarrow> Inr (s # parts)))"

text \<open>
  The property read \<^verbatim>\<open>error.message\<close>. It throws on \<^verbatim>\<open>undefined\<close> and \<^verbatim>\<open>null\<close>; no
  built-in prototype of the other values has a property \<^verbatim>\<open>message\<close>, so the read gives
  the own property or \<^verbatim>\<open>undefined\<close>. The texts of the errors are those of V8.
\<close>

fun get_message :: "jsval \<Rightarrow> jsval + jsval" where
  "get_message JUndefined =
     Inl (TypeError (js ''Cannot read properties of undefined (reading 'message')''))"
| "get_message JNull =
     Inl (TypeError (js ''Cannot read properties of null (reading 'message')''))"
| "get_message (JObject kvs) =
     Inr (case map_of kvs (js ''message'') of None \<Rightarrow> JUndefined | Some v \<Rightarrow> v)"
| "get_message (JError name message) = Inr (JStr message)"
| "get_message v = Inr JUndefined"

section \<open>\<^verbatim>\<open>JSON.stringify\<close>\<close>

text \<open>\<^verbatim>\<open>UnicodeEscape\<close>: \<^verbatim>\<open>\u\<close> and four lowercase hexadecimal digits.\<close>

definition hex_digit :: "nat \<Rightarrow> 16 word" where
  "hex_digit d = (if d < 10 then of_nat (48 + d) else of_nat (87 + d))"

definition UnicodeEscape :: "16 word \<Rightarrow> jsstring" where
  "UnicodeEscape c =
     [0x5C, 0x75, hex_digit (unat c div 4096), hex_digit (unat c div 256 mod 16),
      hex_digit (unat c div 16 mod 16), hex_digit (unat c mod 16)]"

definition is_leading_surrogate :: "16 word \<Rightarrow> bool" where
  "is_leading_surrogate c = (0xD800 \<le> c \<and> c \<le> 0xDBFF)"

definition is_trailing_surrogate :: "16 word \<Rightarrow> bool" where
  "is_trailing_surrogate c = (0xDC00 \<le> c \<and> c \<le> 0xDFFF)"

text \<open>
  The body of \<^verbatim>\<open>QuoteJSONString\<close>: backspace, tab, line feed, form feed, carriage
  return, the double quote and the backslash have a two-character escape; the other code
  units below \<open>0x20\<close> and the surrogates that are not part of a pair are written as
  \<^verbatim>\<open>UnicodeEscape\<close>; everything else is copied.
\<close>

fun json_escape :: "jsstring \<Rightarrow> jsstring" where
  "json_escape [] = []"
| "json_escape (c # cs) =
     (if c = 0x08 then [0x5C, 0x62] @ json_escape cs
      else if c = 0x09 then [0x5C, 0x74] @ json_escape cs
      else if c = 0x0A then [0x5C, 0x6E] @ json_escape cs
      else if c = 0x0C then [0x5C, 0x66] @ json_escape cs
      else if c = 0x0D then [0x5C, 0x72] @ json_escape cs
      else if c = 0x22 then [0x5C, 0x22] @ json_escape cs
      else if c = 0x5C then [0x5C, 0x5C] @ json_escape cs
      else if c < 0x20 then UnicodeEscape c @ json_escape cs
      else if is_leading_surrogate c then
        (case cs of
           [] \<Rightarrow> UnicodeEscape c
         | d # ds \<Rightarrow>
             if is_trailing_surrogate d then c # d # json_escape ds
             else UnicodeEscape c @ json_escape cs)
      else if is_trailing_surrogate c then UnicodeEscape c @ json_escape cs
      else c # json_escape cs)"

definition QuoteJSONString :: "jsstring \<Rightarrow> jsstring" where
  "QuoteJSONString s = [0x22] @ json_escape s @ [0x22]"

text \<open>
  The end of \<^verbatim>\<open>SerializeJSONArray\<close> and \<^verbatim>\<open>SerializeJSONObject\<close>: the serialized
  elements between the two brackets, on one line when the gap is empty, and otherwise one
  per line, indented by the enclosing indentation \<open>stepback\<close> and one more gap.
\<close>

definition enclose :: "jsstring \<Rightarrow> jsstring \<Rightarrow> 16 word \<Rightarrow> 16 word \<Rightarrow> jsstring list \<Rightarrow> jsstring" where
  "enclose gap stepback opening closing partial =
     (if partial = [] then [opening, closing]
      else if gap = [] then [opening] @ join [0x2C] partial @ [closing]
      else [opening, 0x0A] @ (stepback @ gap)
           @ join ([0x2C, 0x0A] @ (stepback @ gap)) partial
           @ [0x0A] @ stepback @ [closing])"

text \<open>
  \<^verbatim>\<open>SerializeJSONProperty\<close> with its two loops. The result \<open>None\<close> is \<^verbatim>\<open>undefined\<close>
  (nothing to serialize): it becomes \<^verbatim>\<open>null\<close> in an array and drops the member of an
  object. A BigInt throws a TypeError, and a method \<^verbatim>\<open>toJSON\<close> that throws makes the
  whole serialization throw its value. An error instance has no enumerable property.
\<close>

fun SerializeJSONProperty :: "jsstring \<Rightarrow> jsstring \<Rightarrow> jsval \<Rightarrow> jsval + jsstring option"
  and SerializeJSONArray :: "jsstring \<Rightarrow> jsstring \<Rightarrow> jsval list \<Rightarrow> jsval + jsstring list"
  and SerializeJSONObject :: "jsstring \<Rightarrow> jsstring \<Rightarrow> (jsstring \<times> jsval) list \<Rightarrow> jsval + jsstring list"
where
  "SerializeJSONProperty gap indent JUndefined = Inr None"
| "SerializeJSONProperty gap indent JNull = Inr (Some (js ''null''))"
| "SerializeJSONProperty gap indent (JBool b) = Inr (Some (if b then js ''true'' else js ''false''))"
| "SerializeJSONProperty gap indent (JNum w) = Inr (Some (int_toString (sint w)))"
| "SerializeJSONProperty gap indent (JBigInt n) =
     Inl (TypeError (js ''Do not know how to serialize a BigInt''))"
| "SerializeJSONProperty gap indent (JStr s) = Inr (Some (QuoteJSONString s))"
| "SerializeJSONProperty gap indent JSymbol = Inr None"
| "SerializeJSONProperty gap indent (JArray xs) =
     (case SerializeJSONArray gap (indent @ gap) xs of
        Inl e \<Rightarrow> Inl e
      | Inr partial \<Rightarrow> Inr (Some (enclose gap indent 0x5B 0x5D partial)))"
| "SerializeJSONProperty gap indent (JObject kvs) =
     (case SerializeJSONObject gap (indent @ gap) kvs of
        Inl e \<Rightarrow> Inl e
      | Inr partial \<Rightarrow> Inr (Some (enclose gap indent 0x7B 0x7D partial)))"
| "SerializeJSONProperty gap indent (JError name message) = Inr (Some (js ''{}''))"
| "SerializeJSONProperty gap indent (JThrowing e) = Inl e"
| "SerializeJSONArray gap indent [] = Inr []"
| "SerializeJSONArray gap indent (x # xs) =
     (case SerializeJSONProperty gap indent x of
        Inl e \<Rightarrow> Inl e
      | Inr strP \<Rightarrow>
          (case SerializeJSONArray gap indent xs of
             Inl e \<Rightarrow> Inl e
           | Inr partial \<Rightarrow>
               Inr ((case strP of None \<Rightarrow> js ''null'' | Some s \<Rightarrow> s) # partial)))"
| "SerializeJSONObject gap indent [] = Inr []"
| "SerializeJSONObject gap indent ((k, v) # kvs) =
     (case SerializeJSONProperty gap indent v of
        Inl e \<Rightarrow> Inl e
      | Inr strP \<Rightarrow>
          (case SerializeJSONObject gap indent kvs of
             Inl e \<Rightarrow> Inl e
           | Inr partial \<Rightarrow>
               Inr (case strP of
                      None \<Rightarrow> partial
                    | Some s \<Rightarrow>
                        (QuoteJSONString k @ [0x3A] @ (if gap = [] then [] else [0x20]) @ s)
                        # partial)))"

section \<open>The process\<close>

text \<open>
  The options object of the one call to the external module, and what the process has
  done so far: the texts written to the two streams, one entry for each call of
  \<^verbatim>\<open>console.log\<close> or \<^verbatim>\<open>console.error\<close> (the runtime ends each with a line feed), and the
  calls made to the external module.
\<close>

record config =
  searchTerm :: jsval
  prettyURLs :: bool
  timeframe :: jsstring
  puppeteerArgs :: "jsstring list"
  logLevel :: jsstring
  limit :: int

record world =
  stdout :: "jsstring list"
  stderr :: "jsstring list"
  calls :: "config list"

text \<open>
  The external module \<^verbatim>\<open>google-news-scraper\<close> is not part of the program: it is a
  parameter, a function from the options to the way its promise settles. A call that
  throws before returning a promise is \<open>Rejected\<close> as well: \<^verbatim>\<open>await\<close> inside \<^verbatim>\<open>try\<close>
  does not tell the two apart. A promise that never settles comes with what the module
  leaves in the event loop: nothing (the runtime then ends the process), or work of its
  own that never ends, such as a browser it waits for.
\<close>

datatype event_loop = Loop_empty | Loop_busy

datatype settlement = Fulfilled jsval | Rejected jsval | Unsettled event_loop

type_synonym provider = "config \<Rightarrow> settlement"

text \<open>
  How a piece of the program completes: normally with a value, by throwing, by
  \<^verbatim>\<open>process.exit\<close>, which ends the process on the spot and is not an exception (no
  \<^verbatim>\<open>catch\<close> sees it), or never, at an \<^verbatim>\<open>await\<close> on a promise that does not settle.
\<close>

datatype 'a completion = Normal 'a | Throw jsval | Exit nat | Pending event_loop

type_synonym 'a js = "world \<Rightarrow> 'a completion \<times> world"

definition bind :: "'a js \<Rightarrow> ('a \<Rightarrow> 'b js) \<Rightarrow> 'b js" where
  "bind m f w =
     (case m w of
        (Normal x, w') \<Rightarrow> f x w'
      | (Throw e, w') \<Rightarrow> (Throw e, w')
      | (Exit n, w') \<Rightarrow> (Exit n, w')
      | (Pending l, w') \<Rightarrow> (Pending l, w'))"

definition try_catch :: "'a js \<Rightarrow> (jsval \<Rightarrow> 'a js) \<Rightarrow> 'a js" where
  "try_catch body handler w =
     (case body w of
        (Throw e, w') \<Rightarrow> handler e w'
      | r \<Rightarrow> r)"

definition return :: "'a \<Rightarrow> 'a js" where
  "return x w = (Normal x, w)"

definition lift :: "jsval + 'a \<Rightarrow> 'a js" where
  "lift r w = (case r of Inl e \<Rightarrow> (Throw e, w) | Inr x \<Rightarrow> (Normal x, w))"

text \<open>\<^verbatim>\<open>process.argv[i]\<close>: the argument, or \<^verbatim>\<open>undefined\<close> past the end of the array.\<close>

definition argv_at :: "jsstring list \<Rightarrow> nat \<Rightarrow> jsval" where
  "argv_at argv i = (if i < length argv then JStr (argv ! i) else JUndefined)"

text \<open>
  \<^verbatim>\<open>JSON.stringify(value)\<close> and \<^verbatim>\<open>JSON.stringify(value, null, space)\<close> for a number
  \<open>space\<close>: the gap is that many spaces, at most ten.
\<close>

definition JSON_stringify :: "jsval \<Rightarrow> nat \<Rightarrow> jsstring option js" where
  "JSON_stringify v space = lift (SerializeJSONProperty (replicate (min 10 space) 0x20) [] v)"

text \<open>
  \<^verbatim>\<open>console.log\<close> and \<^verbatim>\<open>console.error\<close> with the one argument the program gives them,
  the result of \<^verbatim>\<open>JSON.stringify\<close>: a string is written as it is, \<^verbatim>\<open>undefined\<close> as the
  word.
\<close>

definition console_text :: "jsstring option \<Rightarrow> jsstring" where
  "console_text a = (case a of None \<Rightarrow> js ''undefined'' | Some s \<Rightarrow> s)"

definition console_log :: "jsstring option \<Rightarrow> unit js" where
  "console_log a w = (Normal (), w\<lparr>stdout := stdout w @ [console_text a]\<rparr>)"

definition console_error :: "jsstring option \<Rightarrow> unit js" where
  "console_error a w = (Normal (), w\<lparr>stderr := stderr w @ [console_text a]\<rparr>)"

definition process_exit :: "nat \<Rightarrow> 'a js" where
  "process_exit code w = (Exit code, w)"

text \<open>\<^verbatim>\<open>await f(options)\<close>: the call is recorded, then the promise settles or does not.\<close>

definition await_call :: "provider \<Rightarrow> config \<Rightarrow> jsval js" where
  "await_call f options w =
     (case f options of
        Fulfilled v \<Rightarrow> (Normal v, w\<lparr>calls := calls w @ [options]\<rparr>)
      | Rejected e \<Rightarrow> (Throw e, w\<lparr>calls := calls w @ [options]\<rparr>)
      | Unsettled l \<Rightarrow> (Pending l, w\<lparr>calls := calls w @ [options]\<rparr>))"

section \<open>The program\<close>

text \<open>
  \<^verbatim>\<open>main\<close> of \<^verbatim>\<open>run_scraper.js\<close>, with the required module and \<^verbatim>\<open>process.argv\<close> as
  parameters. \<open>process.argv\<close> holds the path of the interpreter, the path of the script
  and then the arguments of the command line, so \<^verbatim>\<open>process.argv[2]\<close> is the first of
  them.
\<close>

definition main :: "provider \<Rightarrow> jsstring list \<Rightarrow> unit js" where
  "main googleNewsScraper argv =
     try_catch
       (bind (return (argv_at argv 2)) (\<lambda>searchTerm.
        bind (if \<not> ToBoolean searchTerm
              then bind (JSON_stringify (JObject [(js ''error'', JStr (js ''No search term provided.''))]) 0)
                     (\<lambda>s. bind (console_error s) (\<lambda>_. process_exit 1))
              else return ()) (\<lambda>_.
        bind (await_call googleNewsScraper
                \<lparr>searchTerm = searchTerm,
                 prettyURLs = True,
                 timeframe = js ''7d'',
                 puppeteerArgs = [js ''--no-sandbox'', js ''--disable-setuid-sandbox''],
                 logLevel = js ''error'',
                 limit = 15\<rparr>) (\<lambda>articles.
        bind (JSON_stringify articles 2) console_log))))
       (\<lambda>error.
        bind (lift (get_message error)) (\<lambda>message.
        bind (lift (ToString message)) (\<lambda>text.
        bind (JSON_stringify (JObject [(js ''error'', JStr (js ''Scraper failed: '' @ text))]) 0)
          (\<lambda>s. bind (console_error s) (\<lambda>_. process_exit 1)))))"

text \<open>
  A run of the script: the call \<^verbatim>\<open>main()\<close> in a fresh process, with what the program
  itself has written and how \<^verbatim>\<open>main\<close> completes.
\<close>

definition run :: "provider \<Rightarrow> jsstring list \<Rightarrow> unit completion \<times> world" where
  "run googleNewsScraper argv = main googleNewsScraper argv \<lparr>stdout = [], stderr = [], calls = []\<rparr>"

text \<open>
  What the runtime adds when \<^verbatim>\<open>main\<close> is over. The call \<^verbatim>\<open>main()\<close> on the last line has no
  handler: when \<^verbatim>\<open>main\<close> throws, its promise is rejected, and Node (from version 15 on,
  where an unhandled rejection is an uncaught exception) writes a report of the uncaught
  value to standard error and ends the process with status 1. The exit status
  is otherwise the argument of \<^verbatim>\<open>process.exit\<close>, or 0 when the process ends on its own:
  when \<^verbatim>\<open>main\<close> returns, and also when it waits on a promise that never settles with
  nothing left in the event loop. A module that keeps the event loop busy for ever keeps
  the process waiting: there is no exit.
\<close>

fun exit_status :: "unit completion \<Rightarrow> nat option" where
  "exit_status (Normal u) = Some 0"
| "exit_status (Exit code) = Some code"
| "exit_status (Throw e) = Some 1"
| "exit_status (Pending Loop_empty) = Some 0"
| "exit_status (Pending Loop_busy) = None"

text \<open>
  Standard error as the process leaves it: the lines of \<^verbatim>\<open>console.error\<close>, then the
  report of the runtime when \<^verbatim>\<open>main\<close> has thrown. The text of that report (the value and
  a stack trace, over several lines) is not modelled, only that it is there and which
  value it reports. The runtime writes nothing to standard output.
\<close>

datatype written = Line jsstring | Uncaught jsval

definition process_stderr :: "unit completion \<times> world \<Rightarrow> written list" where
  "process_stderr r =
     map Line (stderr (snd r)) @ (case fst r of Throw e \<Rightarrow> [Uncaught e] | _ \<Rightarrow> [])"

text \<open>
  Stubs of the external module: one that returns, one that fails, one that hangs with
  work of its own, and one whose promise never settles and that does nothing more.
\<close>

definition stub_returning :: "jsval \<Rightarrow> provider" where
  "stub_returning v options = Fulfilled v"

definition stub_failing :: "jsval \<Rightarrow> provider" where
  "stub_failing e options = Rejected e"

definition stub_hanging :: provider where
  "stub_hanging options = Unsettled Loop_busy"

definition stub_silent :: provider where
  "stub_silent options = Unsettled Loop_empty"

section \<open>The notions of the specification\<close>

text \<open>
  The \<open>RetrievalConfig\<close> of the specification for a search term: readable URLs, a
  lookback window of seven days, the two flags that disable the browser sandbox, errors
  only in the log, at most 15 results.
\<close>

definition RetrievalConfig :: "jsstring \<Rightarrow> config" where
  "RetrievalConfig term =
     \<lparr>searchTerm = JStr term,
      prettyURLs = True,
      timeframe = js ''7d'',
      puppeteerArgs = [js ''--no-sandbox'', js ''--disable-setuid-sandbox''],
      logLevel = js ''error'',
      limit = 15\<rparr>"

text \<open>
  The \<open>ErrorReport\<close> of the specification with a given message, as single-line JSON
  text: an object with the one member \<^verbatim>\<open>error\<close>.
\<close>

definition ErrorReport :: "jsstring \<Rightarrow> jsstring" where
  \<open>ErrorReport message = js ''{"error":"'' @ json_escape message @ js ''"}''\<close>

text \<open>
  The values that \<^verbatim>\<open>JSON.stringify\<close> serializes without throwing: within \<open>jsval\<close>, those
  with no BigInt and no throwing \<^verbatim>\<open>toJSON\<close> inside.
\<close>

fun serializable :: "jsval \<Rightarrow> bool" where
  "serializable (JBigInt n) = False"
| "serializable (JThrowing e) = False"
| "serializable (JArray xs) = list_all serializable xs"
| "serializable (JObject kvs) = list_all (\<lambda>kv. serializable (snd kv)) kvs"
| "serializable v = True"

section \<open>Reading JSON text\<close>

text \<open>
  The specification compares the text on standard output with the value the external
  module returned: the text, parsed as JSON, is that value. The reader below gives a JSON
  text its value, following the JSON grammar: white space between tokens, the three
  literals, strings with their escapes, arrays and objects. A number is read when it is
  one of the integers of \<open>JNum\<close>, the only Numbers of \<open>jsval\<close>; a text with a fraction
  or an exponent has no value here. The members of an object are kept in the order of the text.
\<close>

definition is_ws :: "16 word \<Rightarrow> bool" where
  "is_ws c = (c = 0x20 \<or> c = 0x09 \<or> c = 0x0A \<or> c = 0x0D)"

definition skip_ws :: "jsstring \<Rightarrow> jsstring" where
  "skip_ws s = dropWhile is_ws s"

definition is_digit :: "16 word \<Rightarrow> bool" where
  "is_digit c = (0x30 \<le> c \<and> c \<le> 0x39)"

text \<open>The four hexadecimal digits after \<^verbatim>\<open>\u\<close>, in either case.\<close>

definition hex_value :: "16 word \<Rightarrow> nat option" where
  "hex_value c =
     (if 0x30 \<le> c \<and> c \<le> 0x39 then Some (unat c - 48)
      else if 0x61 \<le> c \<and> c \<le> 0x66 then Some (unat c - 87)
      else if 0x41 \<le> c \<and> c \<le> 0x46 then Some (unat c - 55)
      else None)"

definition read_hex4 :: "16 word \<Rightarrow> 16 word \<Rightarrow> 16 word \<Rightarrow> 16 word \<Rightarrow> 16 word option" where
  "read_hex4 a b c d =
     (case (hex_value a, hex_value b, hex_value c, hex_value d) of
        (Some h3, Some h2, Some h1, Some h0) \<Rightarrow> Some (of_nat (4096 * h3 + 256 * h2 + 16 * h1 + h0))
      | _ \<Rightarrow> None)"

text \<open>The character after a backslash, for the two-character escapes.\<close>

definition unescape :: "16 word \<Rightarrow> 16 word option" where
  "unescape e =
     (if e = 0x22 then Some 0x22
      else if e = 0x5C then Some 0x5C
      else if e = 0x2F then Some 0x2F
      else if e = 0x62 then Some 0x08
      else if e = 0x66 then Some 0x0C
      else if e = 0x6E then Some 0x0A
      else if e = 0x72 then Some 0x0D
      else if e = 0x74 then Some 0x09
      else None)"

text \<open>
  A string, from the character after the opening quote: the characters up to the closing
  quote and the text after it. A raw control character is not allowed.
\<close>

fun read_string :: "jsstring \<Rightarrow> (jsstring \<times> jsstring) option" where
  "read_string [] = None"
| "read_string (c # cs) =
     (if c = 0x22 then Some ([], cs)
      else if c = 0x5C then
        (case cs of
           [] \<Rightarrow> None
         | e # es \<Rightarrow>
             if e = 0x75 then
               (case es of
                  h3 # h2 # h1 # h0 # rest \<Rightarrow>
                    (case read_hex4 h3 h2 h1 h0 of
                       None \<Rightarrow> None
                     | Some u \<Rightarrow>
                         (case read_string rest of
                            None \<Rightarrow> None
                          | Some (s, rest') \<Rightarrow> Some (u # s, rest')))
                | _ \<Rightarrow> None)
             else
               (case unescape e of
                  None \<Rightarrow> None
                | Some u \<Rightarrow>
                    (case read_string es of
                       None \<Rightarrow> None
                     | Some (s, rest') \<Rightarrow> Some (u # s, rest'))))
      else if c < 0x20 then None
      else (case read_string cs of
              None \<Rightarrow> None
            | Some (s, rest') \<Rightarrow> Some (c # s, rest')))"

text \<open>
  An integer: an optional minus sign and decimal digits with no leading zero, not
  followed by a fraction or an exponent. An integer beyond those of \<open>JNum\<close> has no value
  here.
\<close>

definition digits_value :: "jsstring \<Rightarrow> nat" where
  "digits_value ds = foldl (\<lambda>acc c. 10 * acc + (unat c - 48)) 0 ds"

definition read_natural :: "jsstring \<Rightarrow> (nat \<times> jsstring) option" where
  "read_natural s =
     (let ds = takeWhile is_digit s; rest = dropWhile is_digit s in
      if ds = [] \<or> (hd ds = 0x30 \<and> tl ds \<noteq> []) then None
      else if rest \<noteq> [] \<and> hd rest \<in> {0x2E, 0x65, 0x45} then None
      else Some (digits_value ds, rest))"

definition number_of :: "int \<Rightarrow> jsval option" where
  "number_of n = (if - (2 ^ 53) \<le> n \<and> n < 2 ^ 53 then Some (JNum (of_int n)) else None)"

definition read_number :: "jsstring \<Rightarrow> (jsval \<times> jsstring) option" where
  "read_number s =
     (case s of
        [] \<Rightarrow> None
      | c # cs \<Rightarrow>
          if c = 0x2D then
            (case read_natural cs of
               None \<Rightarrow> None
             | Some (n, rest) \<Rightarrow> map_option (\<lambda>v. (v, rest)) (number_of (- int n)))
          else
            (case read_natural s of
               None \<Rightarrow> None
             | Some (n, rest) \<Rightarrow> map_option (\<lambda>v. (v, rest)) (number_of (int n))))"

text \<open>
  A value, the elements of an array after the opening bracket and the members of an
  object after the opening brace, each with the text that follows. The first argument
  bounds the number of nested calls; \<open>JSON_parse\<close> gives it the length of the text,
  which is always enough.
\<close>

fun read_value :: "nat \<Rightarrow> jsstring \<Rightarrow> (jsval \<times> jsstring) option"
  and read_elements :: "nat \<Rightarrow> jsstring \<Rightarrow> (jsval list \<times> jsstring) option"
  and read_members :: "nat \<Rightarrow> jsstring \<Rightarrow> ((jsstring \<times> jsval) list \<times> jsstring) option"
where
  "read_value 0 s = None"
| "read_value (Suc n) s =
     (case skip_ws s of
        [] \<Rightarrow> None
      | c # cs \<Rightarrow>
          if c = 0x5B then
            (case skip_ws cs of
               [] \<Rightarrow> None
             | d # ds \<Rightarrow>
                 if d = 0x5D then Some (JArray [], ds)
                 else map_option (\<lambda>(xs, rest). (JArray xs, rest)) (read_elements n cs))
          else if c = 0x7B then
            (case skip_ws cs of
               [] \<Rightarrow> None
             | d # ds \<Rightarrow>
                 if d = 0x7D then Some (JObject [], ds)
                 else map_option (\<lambda>(kvs, rest). (JObject kvs, rest)) (read_members n cs))
          else if c = 0x22 then map_option (\<lambda>(t, rest). (JStr t, rest)) (read_string cs)
          else if take 4 (c # cs) = js ''null'' then Some (JNull, drop 4 (c # cs))
          else if take 4 (c # cs) = js ''true'' then Some (JBool True, drop 4 (c # cs))
          else if take 5 (c # cs) = js ''false'' then Some (JBool False, drop 5 (c # cs))
          else read_number (c # cs))"
| "read_elements 0 s = None"
| "read_elements (Suc n) s =
     (case read_value n s of
        None \<Rightarrow> None
      | Some (v, rest) \<Rightarrow>
          (case skip_ws rest of
             [] \<Rightarrow> None
           | c # cs \<Rightarrow>
               if c = 0x5D then Some ([v], cs)
               else if c = 0x2C then
                 map_option (\<lambda>(vs, rest'). (v # vs, rest')) (read_elements n cs)
               else None))"
| "read_members 0 s = None"
| "read_members (Suc n) s =
     (case skip_ws s of
        [] \<Rightarrow> None
      | q # qs \<Rightarrow>
          if q \<noteq> 0x22 then None
          else
            (case read_string qs of
               None \<Rightarrow> None
             | Some (k, rest) \<Rightarrow>
                 (case skip_ws rest of
                    [] \<Rightarrow> None
                  | colon # after \<Rightarrow>
                      if colon \<noteq> 0x3A then None
                      else
                        (case read_value n after of
                           None \<Rightarrow> None
                         | Some (v, rest') \<Rightarrow>
                             (case skip_ws rest' of
                                [] \<Rightarrow> None
                              | c # cs \<Rightarrow>
                                  if c = 0x7D then Some ([(k, v)], cs)
                                  else if c = 0x2C then
                                    map_option (\<lambda>(kvs, rest''). ((k, v) # kvs, rest''))
                                      (read_members n cs)
                                  else None)))))"

definition JSON_parse :: "jsstring \<Rightarrow> jsval option" where
  "JSON_parse text =
     (case read_value (length text) text of
        None \<Rightarrow> None
      | Some (v, rest) \<Rightarrow> if skip_ws rest = [] then Some v else None)"

text \<open>
  What may follow the digits of a number: the end of the text, or a character that does
  not continue the number.
\<close>

definition ends_number :: "jsstring \<Rightarrow> bool" where
  "ends_number rest =
     (rest = [] \<or> \<not> (is_digit (hd rest) \<or> hd rest = 0x2E \<or> hd rest = 0x65 \<or> hd rest = 0x45))"

text \<open>
  A bound on the nested calls that reading a value takes: the number of its nodes.
\<close>

fun nodes :: "jsval \<Rightarrow> nat"
  and nodes_elements :: "jsval list \<Rightarrow> nat"
  and nodes_members :: "(jsstring \<times> jsval) list \<Rightarrow> nat"
where
  "nodes (JArray xs) = Suc (nodes_elements xs)"
| "nodes (JObject kvs) = Suc (nodes_members kvs)"
| "nodes JUndefined = 1"
| "nodes JNull = 1"
| "nodes (JBool b) = 1"
| "nodes (JNum n) = 1"
| "nodes (JBigInt n) = 1"
| "nodes (JStr s) = 1"
| "nodes JSymbol = 1"
| "nodes (JError name message) = 1"
| "nodes (JThrowing e) = 1"
| "nodes_elements [] = 0"
| "nodes_elements (x # xs) = Suc (nodes x + nodes_elements xs)"
| "nodes_members [] = 0"
| "nodes_members ((k, v) # kvs) = Suc (nodes v + nodes_members kvs)"

text \<open>
  What the proof that the reader inverts \<^verbatim>\<open>JSON.stringify\<close> shows of each value: it is
  serialized to a text that starts with neither white space nor a closing bracket, and
  the reader returns the value from that text, after any white space and before any text
  that does not continue a number.
\<close>

definition reads_back :: "jsstring \<Rightarrow> jsstring \<Rightarrow> jsval \<Rightarrow> bool" where
  "reads_back gap indent v =
     (\<exists>t. SerializeJSONProperty gap indent v = Inr (Some t)
        \<and> t \<noteq> [] \<and> \<not> is_ws (hd t) \<and> hd t \<noteq> 0x5D \<and> hd t \<noteq> 0x7D
        \<and> (\<forall>n w rest. nodes v \<le> n \<longrightarrow> list_all is_ws w \<longrightarrow> ends_number rest \<longrightarrow>
               read_value n (w @ t @ rest) = Some (v, rest)))"

text \<open>
  The JSON values: what a JSON text can denote. \<^verbatim>\<open>undefined\<close>, Symbols, BigInts and error
  instances are not among them.
\<close>

fun json_value :: "jsval \<Rightarrow> bool" where
  "json_value JNull = True"
| "json_value (JBool b) = True"
| "json_value (JNum n) = True"
| "json_value (JStr s) = True"
| "json_value (JArray xs) = list_all json_value xs"
| "json_value (JObject kvs) = list_all (\<lambda>kv. json_value (snd kv)) kvs"
| "json_value v = False"

text \<open>
  The JSON value that \<^verbatim>\<open>JSON.stringify\<close> writes for a value, if it writes any: a member
  whose value is \<^verbatim>\<open>undefined\<close> or a Symbol is left out, such an element of an array
  becomes \<^verbatim>\<open>null\<close>, and an error instance becomes the empty object.
\<close>

fun json_image :: "jsval \<Rightarrow> jsval option"
  and image_elements :: "jsval list \<Rightarrow> jsval list"
  and image_members :: "(jsstring \<times> jsval) list \<Rightarrow> (jsstring \<times> jsval) list"
where
  "json_image JUndefined = None"
| "json_image JNull = Some JNull"
| "json_image (JBool b) = Some (JBool b)"
| "json_image (JNum w) = Some (JNum w)"
| "json_image (JBigInt n) = None"
| "json_image (JStr s) = Some (JStr s)"
| "json_image JSymbol = None"
| "json_image (JArray xs) = Some (JArray (image_elements xs))"
| "json_image (JObject kvs) = Some (JObject (image_members kvs))"
| "json_image (JError name message) = Some (JObject [])"
| "json_image (JThrowing e) = None"
| "image_elements [] = []"
| "image_elements (x # xs) =
     (case json_image x of None \<Rightarrow> JNull | Some j \<Rightarrow> j) # image_elements xs"
| "image_members [] = []"
| "image_members ((k, v) # kvs) =
     (case json_image v of
        None \<Rightarrow> image_members kvs
      | Some j \<Rightarrow> (k, j) # image_members kvs)"

section \<open>What a run does, case by case\<close>

lemmas js_monad_defs =
  bind_def try_catch_def return_def lift_def console_log_def console_error_def
  process_exit_def await_call_def

lemma JSON_stringify_compact:
  "JSON_stringify v 0 = lift (SerializeJSONProperty [] [] v)"
  by (simp add: JSON_stringify_def)

lemma JSON_stringify_indented:
  "JSON_stringify v 2 = lift (SerializeJSONProperty [0x20, 0x20] [] v)"
proof -
  have "replicate (min 10 2) (0x20 :: 16 word) = [0x20, 0x20]"
    by (simp add: numeral_2_eq_2)
  then show ?thesis by (simp add: JSON_stringify_def)
qed

lemma argv_at_2:
  "argv_at argv 2 = (case drop 2 argv of [] \<Rightarrow> JUndefined | t # rest \<Rightarrow> JStr t)"
  by (cases argv rule: list.exhaust; cases "tl argv"; cases "tl (tl argv)")
     (auto simp add: argv_at_def)

lemma argv_at_valid:
  assumes "2 < length argv" and "argv ! 2 \<noteq> []"
  shows "argv_at argv 2 = JStr (argv ! 2)" and "ToBoolean (argv_at argv 2)"
  using assms by (simp_all add: argv_at_def)

lemma argv_at_missing:
  assumes "length argv \<le> 2 \<or> argv ! 2 = []"
  shows "\<not> ToBoolean (argv_at argv 2)"
  using assms by (auto simp add: argv_at_def)

lemma stringify_error_object:
  "JSON_stringify (JObject [(js ''error'', JStr message)]) 0 = return (Some (ErrorReport message))"
  by (rule ext)
     (simp add: JSON_stringify_compact lift_def return_def ErrorReport_def enclose_def
      QuoteJSONString_def js_def is_leading_surrogate_def is_trailing_surrogate_def)

lemma run_missing:
  assumes "length argv \<le> 2 \<or> argv ! 2 = []"
  shows "run p argv =
    (Exit 1, \<lparr>stdout = [], stderr = [ErrorReport (js ''No search term provided.'')], calls = []\<rparr>)"
  using argv_at_missing [OF assms]
  by (simp add: run_def main_def stringify_error_object js_monad_defs console_text_def)

lemma run_unsettled:
  assumes "2 < length argv" and "argv ! 2 \<noteq> []"
    and "p (RetrievalConfig (argv ! 2)) = Unsettled l"
  shows "run p argv =
    (Pending l, \<lparr>stdout = [], stderr = [], calls = [RetrievalConfig (argv ! 2)]\<rparr>)"
  using argv_at_valid [OF assms(1,2)] assms(3)
  by (simp add: run_def main_def js_monad_defs RetrievalConfig_def)

lemma run_fulfilled:
  assumes "2 < length argv" and "argv ! 2 \<noteq> []"
    and "p (RetrievalConfig (argv ! 2)) = Fulfilled v"
    and "SerializeJSONProperty [0x20, 0x20] [] v = Inr r"
  shows "run p argv =
    (Normal (), \<lparr>stdout = [console_text r], stderr = [], calls = [RetrievalConfig (argv ! 2)]\<rparr>)"
  using argv_at_valid [OF assms(1,2)] assms(3,4)
  by (simp add: run_def main_def JSON_stringify_indented js_monad_defs RetrievalConfig_def)

lemma run_caught:
  assumes "2 < length argv" and "argv ! 2 \<noteq> []"
    and "p (RetrievalConfig (argv ! 2)) = Rejected e
         \<or> (\<exists>v. p (RetrievalConfig (argv ! 2)) = Fulfilled v
                \<and> SerializeJSONProperty [0x20, 0x20] [] v = Inl e)"
  shows "run p argv =
    (case get_message e of
       Inl t \<Rightarrow> (Throw t, \<lparr>stdout = [], stderr = [], calls = [RetrievalConfig (argv ! 2)]\<rparr>)
     | Inr m \<Rightarrow>
         (case ToString m of
            Inl t \<Rightarrow> (Throw t, \<lparr>stdout = [], stderr = [], calls = [RetrievalConfig (argv ! 2)]\<rparr>)
          | Inr text \<Rightarrow>
              (Exit 1, \<lparr>stdout = [], stderr = [ErrorReport (js ''Scraper failed: '' @ text)],
                        calls = [RetrievalConfig (argv ! 2)]\<rparr>)))"
  using argv_at_valid [OF assms(1,2)] assms(3)
  by (auto simp add: run_def main_def JSON_stringify_indented stringify_error_object
      js_monad_defs RetrievalConfig_def console_text_def split: sum.splits)



lemma json_escape_prefix:
  "json_escape (js ''Scraper failed: '' @ text) = js ''Scraper failed: '' @ json_escape text"
  by (simp add: js_def is_leading_surrogate_def is_trailing_surrogate_def)

lemma ErrorReport_missing:
  \<open>ErrorReport (js ''No search term provided.'') = js ''{"error":"No search term provided."}''\<close>
  by (simp add: ErrorReport_def js_def is_leading_surrogate_def is_trailing_surrogate_def)

lemma ErrorReport_failed:
  \<open>ErrorReport (js ''Scraper failed: '' @ text)
     = js ''{"error":"Scraper failed: '' @ json_escape text @ js ''"}''\<close>
  by (simp add: ErrorReport_def json_escape_prefix) (simp add: js_def)

lemma ErrorReport_is_stringify:
  "SerializeJSONProperty [] [] (JObject [(js ''error'', JStr message)])
     = Inr (Some (ErrorReport message))"
  by (simp add: ErrorReport_def enclose_def QuoteJSONString_def js_def
      is_leading_surrogate_def is_trailing_surrogate_def)

lemma serializable_never_throws:
  "serializable v \<Longrightarrow> \<exists>r. SerializeJSONProperty gap indent v = Inr r"
  "list_all serializable xs \<Longrightarrow> \<exists>partial. SerializeJSONArray gap indent xs = Inr partial"
  "list_all (\<lambda>kv. serializable (snd kv)) kvs \<Longrightarrow> \<exists>partial. SerializeJSONObject gap indent kvs = Inr partial"
  by (induction gap indent v and gap indent xs and gap indent kvs
      rule: SerializeJSONProperty_SerializeJSONArray_SerializeJSONObject.induct)
     (auto split: sum.splits)

lemma array_gives_text:
  "SerializeJSONProperty gap indent (JArray xs) = Inr r \<Longrightarrow> \<exists>text. r = Some text"
  by (auto split: sum.splits)

lemma run_calls_valid:
  assumes "2 < length argv" and "argv ! 2 \<noteq> []"
  shows "calls (snd (run p argv)) = [RetrievalConfig (argv ! 2)]"
proof (cases "p (RetrievalConfig (argv ! 2))")
  case (Fulfilled v)
  show ?thesis
  proof (cases "SerializeJSONProperty [0x20, 0x20] [] v")
    case (Inl e)
    with Fulfilled run_caught [OF assms, of p e] show ?thesis
      by (auto split: sum.splits)
  next
    case (Inr r)
    with Fulfilled run_fulfilled [OF assms, of p v r] show ?thesis by simp
  qed
next
  case (Rejected e)
  with run_caught [OF assms, of p e] show ?thesis
    by (auto split: sum.splits)
next
  case (Unsettled l)
  with run_unsettled [OF assms, of p l] show ?thesis by simp
qed

lemma get_message_defined:
  "e \<noteq> JUndefined \<Longrightarrow> e \<noteq> JNull \<Longrightarrow> \<exists>m. get_message e = Inr m"
  by (cases e) simp_all

lemma run_cases [case_names missing hanging success reported uncaught]:
  obtains
    "length argv \<le> 2 \<or> argv ! 2 = []"
    "run p argv =
       (Exit 1, \<lparr>stdout = [], stderr = [ErrorReport (js ''No search term provided.'')], calls = []\<rparr>)"
  | l where "2 < length argv" "argv ! 2 \<noteq> []"
    "p (RetrievalConfig (argv ! 2)) = Unsettled l"
    "run p argv = (Pending l, \<lparr>stdout = [], stderr = [], calls = [RetrievalConfig (argv ! 2)]\<rparr>)"
  | v r where "2 < length argv" "argv ! 2 \<noteq> []"
    "p (RetrievalConfig (argv ! 2)) = Fulfilled v"
    "SerializeJSONProperty [0x20, 0x20] [] v = Inr r"
    "run p argv =
       (Normal (), \<lparr>stdout = [console_text r], stderr = [], calls = [RetrievalConfig (argv ! 2)]\<rparr>)"
  | e m line where "2 < length argv" "argv ! 2 \<noteq> []"
    "p (RetrievalConfig (argv ! 2)) = Rejected e
     \<or> (\<exists>v. p (RetrievalConfig (argv ! 2)) = Fulfilled v
            \<and> SerializeJSONProperty [0x20, 0x20] [] v = Inl e)"
    "get_message e = Inr m" "ToString m = Inr line"
    "run p argv =
       (Exit 1, \<lparr>stdout = [], stderr = [ErrorReport (js ''Scraper failed: '' @ line)],
                 calls = [RetrievalConfig (argv ! 2)]\<rparr>)"
  | e t where "2 < length argv" "argv ! 2 \<noteq> []"
    "p (RetrievalConfig (argv ! 2)) = Rejected e
     \<or> (\<exists>v. p (RetrievalConfig (argv ! 2)) = Fulfilled v
            \<and> SerializeJSONProperty [0x20, 0x20] [] v = Inl e)"
    "get_message e = Inl t \<or> (\<exists>m. get_message e = Inr m \<and> ToString m = Inl t)"
    "run p argv = (Throw t, \<lparr>stdout = [], stderr = [], calls = [RetrievalConfig (argv ! 2)]\<rparr>)"
proof (cases "2 < length argv \<and> argv ! 2 \<noteq> []")
  case False
  then have "length argv \<le> 2 \<or> argv ! 2 = []" by auto
  with run_missing [OF this, of p] that(1) show thesis by blast
next
  case valid: True
  note R = that
  from valid have v1: "2 < length argv" and v2: "argv ! 2 \<noteq> []" by simp_all
  have caught: thesis
    if c: "p (RetrievalConfig (argv ! 2)) = Rejected e
       \<or> (\<exists>v. p (RetrievalConfig (argv ! 2)) = Fulfilled v
              \<and> SerializeJSONProperty [0x20, 0x20] [] v = Inl e)" for e
  proof (cases "get_message e")
    case (Inl t)
    with run_caught [of argv p e] R(5) [of e t] v1 v2 c show thesis by simp
  next
    case m: (Inr m)
    show thesis
    proof (cases "ToString m")
      case (Inl t)
      with m run_caught [of argv p e] R(5) [of e t] v1 v2 c show thesis by simp
    next
      case (Inr line)
      with m run_caught [of argv p e] R(4) [of e m line] v1 v2 c show thesis by simp
    qed
  qed
  show thesis
  proof (cases "p (RetrievalConfig (argv ! 2))")
    case (Fulfilled v)
    show thesis
    proof (cases "SerializeJSONProperty [0x20, 0x20] [] v")
      case (Inl e)
      with Fulfilled caught [of e] show thesis by blast
    next
      case (Inr r)
      with Fulfilled run_fulfilled [OF v1 v2, of p v r] R(3) [OF v1 v2, of v r]
      show thesis by blast
    qed
  next
    case (Rejected e)
    with caught [of e] show thesis by blast
  next
    case (Unsettled l)
    with run_unsettled [OF v1 v2, of p l] R(2) [OF v1 v2, of l] show thesis by blast
  qed
qed


lemma of_nat_printable:
  assumes "32 \<le> n" and "n < 65536"
  shows "(0x20 :: 16 word) \<le> of_nat n"
proof -
  have "(of_nat 32 :: 16 word) \<le> of_nat n"
    using assms by (simp only: of_nat_word_less_eq_iff take_bit_nat_def) simp
  then show ?thesis by simp
qed

lemma hex_digit_printable:
  assumes "d < 16"
  shows "0x20 \<le> hex_digit d"
proof (cases "d < 10")
  case True
  then show ?thesis
    unfolding hex_digit_def by (simp only: if_True) (rule of_nat_printable, simp_all)
next
  case False
  with assms show ?thesis
    unfolding hex_digit_def by (simp only: if_False) (rule of_nat_printable, simp_all)
qed

lemma UnicodeEscape_printable: "c \<in> set (UnicodeEscape x) \<Longrightarrow> 0x20 \<le> c"
proof -
  have "unat x < 65536" using unsigned_less [of x, where 'a = nat] by simp
  then have "unat x div 4096 < 16" by simp
  then show "c \<in> set (UnicodeEscape x) \<Longrightarrow> 0x20 \<le> c"
    by (auto simp add: UnicodeEscape_def hex_digit_printable)
qed

lemma json_escape_Cons_cases:
  obtains (escaped)
      "\<exists>e. json_escape (x # xs) = [0x5C, e] @ json_escape xs \<and> 0x20 \<le> e \<and> e \<noteq> 0x75
          \<and> unescape e = Some x"
  | (unicode) "json_escape (x # xs) = UnicodeEscape x @ json_escape xs"
  | (final) "xs = []" "json_escape (x # xs) = UnicodeEscape x"
  | (pair) d ds where "xs = d # ds" "json_escape (x # xs) = x # d # json_escape ds"
      "0x20 \<le> x" "x \<noteq> 0x22" "x \<noteq> 0x5C" "0x20 \<le> d" "d \<noteq> 0x22" "d \<noteq> 0x5C"
  | (copied) "json_escape (x # xs) = x # json_escape xs" "0x20 \<le> x" "x \<noteq> 0x22" "x \<noteq> 0x5C"
proof -
  consider "x = 0x08" | "x = 0x09" | "x = 0x0A" | "x = 0x0C" | "x = 0x0D" | "x = 0x22" | "x = 0x5C"
    | "x \<notin> {0x08, 0x09, 0x0A, 0x0C, 0x0D, 0x22, 0x5C}" "x < 0x20"
    | "x \<notin> {0x08, 0x09, 0x0A, 0x0C, 0x0D, 0x22, 0x5C}" "\<not> x < 0x20" "is_leading_surrogate x"
    | "x \<notin> {0x08, 0x09, 0x0A, 0x0C, 0x0D, 0x22, 0x5C}" "\<not> x < 0x20" "\<not> is_leading_surrogate x"
        "is_trailing_surrogate x"
    | "x \<notin> {0x08, 0x09, 0x0A, 0x0C, 0x0D, 0x22, 0x5C}" "\<not> x < 0x20" "\<not> is_leading_surrogate x"
        "\<not> is_trailing_surrogate x"
    by blast
  then show thesis
  proof cases
    case 1 then show ?thesis using escaped by (simp add: unescape_def)
  next
    case 2 then show ?thesis using escaped by (simp add: unescape_def)
  next
    case 3 then show ?thesis using escaped by (simp add: unescape_def)
  next
    case 4 then show ?thesis using escaped by (simp add: unescape_def)
  next
    case 5 then show ?thesis using escaped by (simp add: unescape_def)
  next
    case 6 then show ?thesis using escaped by (simp add: unescape_def)
  next
    case 7 then show ?thesis using escaped by (simp add: unescape_def)
  next
    case 8 then show ?thesis using unicode by simp
  next
    case 9
    show ?thesis
    proof (cases xs)
      case Nil
      with 9 final show ?thesis by simp
    next
      case (Cons d ds)
      show ?thesis
      proof (cases "is_trailing_surrogate d")
        case True
        then have "0xDC00 \<le> d" by (simp add: is_trailing_surrogate_def)
        then have "0x20 \<le> d" "d \<noteq> 0x22" "d \<noteq> 0x5C"
          using order_trans [of "0x20" "0xDC00" d] by auto
        moreover from 9 have "0x20 \<le> x" "x \<noteq> 0x22" "x \<noteq> 0x5C" by simp_all
        ultimately show ?thesis
          using 9 True Cons pair [of d ds] by simp
      next
        case False
        with 9 Cons unicode show ?thesis by simp
      qed
    qed
  next
    case 10 then show ?thesis using unicode by simp
  next
    case 11 then show ?thesis using copied by simp
  qed
qed

lemma json_escape_printable: "\<forall>c \<in> set (json_escape s). 0x20 \<le> c"
proof (induction s rule: length_induct)
  case (1 s)
  show ?case
  proof (cases s)
    case Nil
    then show ?thesis by simp
  next
    case (Cons x xs)
    have xs: "\<forall>c \<in> set (json_escape xs). 0x20 \<le> c"
      using 1 [rule_format, of xs] Cons by simp
    show ?thesis
    proof (cases rule: json_escape_Cons_cases [of x xs])
      case escaped
      with xs Cons show ?thesis by (auto simp del: json_escape.simps)
    next
      case unicode
      with xs Cons show ?thesis by (auto simp del: json_escape.simps dest: UnicodeEscape_printable)
    next
      case final
      with Cons show ?thesis by (auto simp del: json_escape.simps dest: UnicodeEscape_printable)
    next
      case (pair d ds)
      have "\<forall>c \<in> set (json_escape ds). 0x20 \<le> c"
        using 1 [rule_format, of ds] Cons pair(1) by simp
      with pair Cons show ?thesis by (simp del: json_escape.simps)
    next
      case copied
      with xs Cons show ?thesis by (simp del: json_escape.simps)
    qed
  qed
qed


lemma ErrorReport_single_line: "0x0A \<notin> set (ErrorReport message)"
proof
  assume "0x0A \<in> set (ErrorReport message)"
  then have "(0x0A :: 16 word) \<in> set (json_escape message)"
    by (auto simp add: ErrorReport_def js_def)
  with json_escape_printable [of message] have "(0x20 :: 16 word) \<le> 0x0A" by blast
  then show False by simp
qed


section \<open>The reader inverts \<^verbatim>\<open>JSON.stringify\<close>\<close>

lemma hex_digits_sum:
  fixes u :: nat
  shows "4096 * (u div 4096) + 256 * (u div 256 mod 16) + 16 * (u div 16 mod 16) + u mod 16 = u"
proof -
  have a: "u = 16 * (u div 16) + u mod 16" by simp
  have b: "u div 16 = 16 * (u div 16 div 16) + u div 16 mod 16" by simp
  have c: "u div 256 = 16 * (u div 256 div 16) + u div 256 mod 16" by simp
  have d: "u div 16 div 16 = u div 256" by (simp add: div_mult2_eq [symmetric])
  have e: "u div 256 div 16 = u div 4096" by (simp add: div_mult2_eq [symmetric])
  from a b c d e show ?thesis by linarith
qed


lemma unat_hex_digit:
  assumes "d < 16"
  shows "unat (hex_digit d) = (if d < 10 then 48 + d else 87 + d)"
  using assms by (simp add: hex_digit_def unat_of_nat del: of_nat_add)

lemma hex_value_hex_digit:
  assumes "d < 16"
  shows "hex_value (hex_digit d) = Some d"
  using assms
  by (simp add: hex_value_def word_le_nat_alt unat_hex_digit)

lemma read_hex4_UnicodeEscape:
  "read_hex4 (hex_digit (unat x div 4096)) (hex_digit (unat x div 256 mod 16))
     (hex_digit (unat x div 16 mod 16)) (hex_digit (unat x mod 16)) = Some x"
proof -
  have "unat x < 65536" using unsigned_less [of x, where 'a = nat] by simp
  then have "unat x div 4096 < 16" by simp
  then show ?thesis
    by (simp only: read_hex4_def hex_value_hex_digit hex_digits_sum
        pos_mod_bound mod_less_divisor zero_less_numeral option.case prod.case) simp
qed

lemma read_string_UnicodeEscape:
  "read_string (UnicodeEscape x @ s) =
     (case read_string s of None \<Rightarrow> None | Some (t, rest) \<Rightarrow> Some (x # t, rest))"
  using read_hex4_UnicodeEscape [of x] by (simp add: UnicodeEscape_def)

lemma read_string_json_escape:
  "read_string (json_escape s @ 0x22 # rest) = Some (s, rest)"
proof (induction s rule: length_induct)
  case (1 s)
  show ?case
  proof (cases s)
    case Nil
    then show ?thesis by simp
  next
    case (Cons x xs)
    have xs: "read_string (json_escape xs @ 0x22 # rest) = Some (xs, rest)"
      using 1 [rule_format, of xs] Cons by simp
    show ?thesis
    proof (cases rule: json_escape_Cons_cases [of x xs])
      case escaped
      then obtain e where "json_escape (x # xs) = [0x5C, e] @ json_escape xs"
        and "e \<noteq> 0x75" and "unescape e = Some x" by blast
      with xs Cons show ?thesis by (simp del: json_escape.simps)
    next
      case unicode
      with xs Cons show ?thesis
        by (simp del: json_escape.simps read_string.simps add: read_string_UnicodeEscape)
    next
      case final
      with Cons show ?thesis
        using read_string_UnicodeEscape [of x "0x22 # rest"]
        by (simp del: json_escape.simps)
    next
      case (pair d ds)
      have "read_string (json_escape ds @ 0x22 # rest) = Some (ds, rest)"
        using 1 [rule_format, of ds] Cons pair(1) by simp
      with pair Cons show ?thesis by (simp del: json_escape.simps add: not_less)
    next
      case copied
      with xs Cons show ?thesis by (simp del: json_escape.simps add: not_less)
    qed
  qed
qed


lemma unat_digit:
  assumes "k < 10"
  shows "unat (of_nat (48 + k) :: 16 word) = 48 + k"
  using assms by (simp add: unat_of_nat del: of_nat_add)

lemma is_digit_digit:
  assumes "k < 10"
  shows "is_digit (of_nat (48 + k))"
  using assms by (simp add: is_digit_def word_le_nat_alt unat_digit del: of_nat_add)

lemma digit_not_minus:
  assumes "is_digit c"
  shows "c \<noteq> 0x2D" "c \<noteq> 0x5B" "c \<noteq> 0x7B" "c \<noteq> 0x22" "\<not> is_ws c"
    "c \<noteq> 0x6E" "c \<noteq> 0x74" "c \<noteq> 0x66" "c \<noteq> 0x5D" "c \<noteq> 0x7D" "c \<noteq> 0x2C"
  using assms by (auto simp add: is_digit_def is_ws_def)

lemma digits_nonempty: "digits n \<noteq> []"
  by (subst digits.simps) simp

lemma digits_all_digits: "list_all is_digit (digits n)"
proof (induction n rule: digits.induct)
  case (1 n)
  show ?case
  proof (cases "n < 10")
    case True
    then show ?thesis
      by (subst digits.simps) (simp add: is_digit_digit del: of_nat_add)
  next
    case False
    moreover have "n mod 10 < 10" by simp
    ultimately show ?thesis
      using 1 is_digit_digit [of "n mod 10"]
      by (subst digits.simps) (simp del: of_nat_add)
  qed
qed

lemma digits_value_snoc:
  "digits_value (ds @ [c]) = 10 * digits_value ds + (unat c - 48)"
  by (simp add: digits_value_def)

lemma digits_value_digits: "digits_value (digits n) = n"
proof (induction n rule: digits.induct)
  case (1 n)
  show ?case
  proof (cases "n < 10")
    case True
    then have "digits n = [of_nat (48 + n)]"
      by (subst digits.simps) simp
    with True show ?thesis
      using unat_digit [of n] by (simp add: digits_value_def del: of_nat_add)
  next
    case False
    then have "digits n = digits (n div 10) @ [of_nat (48 + n mod 10)]"
      by (subst digits.simps) simp
    moreover have "unat (of_nat (48 + n mod 10) :: 16 word) = 48 + n mod 10"
      by (rule unat_digit) simp
    ultimately show ?thesis
      using 1 False by (simp add: digits_value_snoc del: of_nat_add)
  qed
qed

lemma digits_no_leading_zero:
  assumes "0 < n"
  shows "hd (digits n) \<noteq> 0x30"
  using assms
proof (induction n rule: digits.induct)
  case (1 n)
  show ?case
  proof (cases "n < 10")
    case True
    then have d: "digits n = [of_nat (48 + n)]"
      by (subst digits.simps) simp
    have "unat (of_nat (48 + n) :: 16 word) \<noteq> unat (0x30 :: 16 word)"
      using unat_digit [OF True] "1.prems" by simp
    then have "(of_nat (48 + n) :: 16 word) \<noteq> 0x30" by metis
    with d show ?thesis by simp
  next
    case False
    then have "digits n = digits (n div 10) @ [of_nat (48 + n mod 10)]"
      by (subst digits.simps) simp
    then have "hd (digits n) = hd (digits (n div 10))"
      using digits_nonempty [of "n div 10"] by simp
    moreover from False have "0 < n div 10" by simp
    ultimately show ?thesis using 1 False by simp
  qed
qed

lemma digits_single_zero:
  assumes "hd (digits n) = 0x30"
  shows "tl (digits n) = []"
proof -
  from assms digits_no_leading_zero [of n] have "n = 0" by auto
  then show ?thesis by (subst digits.simps) simp
qed

lemma read_natural_digits:
  assumes "ends_number rest"
  shows "read_natural (digits n @ rest) = Some (n, rest)"
proof -
  from assms have r: "rest = [] \<or> \<not> is_digit (hd rest)"
    by (auto simp add: ends_number_def)
  have t: "takeWhile is_digit (digits n @ rest) = digits n"
  proof (cases rest)
    case Nil
    then show ?thesis using digits_all_digits [of n] by (simp add: list_all_iff)
  next
    case (Cons c cs)
    with r have "\<not> is_digit c" by simp
    with Cons show ?thesis
      using digits_all_digits [of n] by (simp add: list_all_iff takeWhile_tail)
  qed
  have d: "dropWhile is_digit (digits n @ rest) = rest"
  proof (cases rest)
    case Nil
    then show ?thesis using digits_all_digits [of n] by (simp add: list_all_iff)
  next
    case (Cons c cs)
    with r have "\<not> is_digit c" by simp
    with Cons show ?thesis
      using digits_all_digits [of n] by (simp add: list_all_iff)
  qed
  from assms have e: "\<not> (rest \<noteq> [] \<and> hd rest \<in> {0x2E, 0x65, 0x45})"
    by (auto simp add: ends_number_def)
  show ?thesis
    unfolding read_natural_def Let_def t d
    using e digits_nonempty [of n] digits_single_zero [of n] digits_value_digits [of n]
    by auto
qed

lemma number_of_sint: "number_of (sint w) = Some (JNum w)"
proof -
  have "- (2 ^ 53) \<le> sint w" "sint w < 2 ^ 53"
    using sint_ge [of w] sint_lt [of w] by simp_all
  then show ?thesis
    by (simp add: number_of_def)
qed

lemma read_number_int_toString:
  assumes "ends_number rest"
  shows "read_number (int_toString (sint w) @ rest) = Some (JNum w, rest)"
proof (cases "sint w < 0")
  case True
  then have "- int (nat (- sint w)) = sint w" by simp
  with True show ?thesis
    using read_natural_digits [OF assms, of "nat (- sint w)"] number_of_sint [of w]
    by (simp add: read_number_def int_toString_def)
next
  case False
  obtain c cs where c: "digits (nat (sint w)) = c # cs"
    using digits_nonempty [of "nat (sint w)"] by (cases "digits (nat (sint w))") auto
  with digits_all_digits [of "nat (sint w)"] have "is_digit c" by simp
  then have "c \<noteq> 0x2D" by (rule digit_not_minus)
  moreover from False have "int (nat (sint w)) = sint w" by simp
  ultimately show ?thesis
    using False c read_natural_digits [OF assms, of "nat (sint w)"] number_of_sint [of w]
    by (simp add: read_number_def int_toString_def)
qed

lemma skip_ws_append:
  assumes "list_all is_ws w"
  shows "skip_ws (w @ s) = skip_ws s"
  using assms by (simp add: skip_ws_def list_all_iff)

lemma skip_ws_Cons:
  assumes "\<not> is_ws c"
  shows "skip_ws (c # s) = c # s"
  using assms by (simp add: skip_ws_def)

lemma skip_ws_ws_Cons:
  assumes "list_all is_ws w" and "\<not> is_ws c"
  shows "skip_ws (w @ c # s) = c # s"
  using assms by (simp add: skip_ws_append skip_ws_Cons)

lemma read_value_null:
  assumes "0 < n" and "list_all is_ws w"
  shows "read_value n (w @ js ''null'' @ rest) = Some (JNull, rest)"
proof -
  from assms(1) obtain m where n: "n = Suc m" by (cases n) auto
  have "skip_ws (w @ js ''null'' @ rest) = 0x6E # js ''ull'' @ rest"
    using skip_ws_ws_Cons [OF assms(2), of "0x6E" "js ''ull'' @ rest"]
    by (simp add: js_def is_ws_def)
  then show ?thesis
    by (simp add: n) (simp add: js_def)
qed

lemma read_value_true:
  assumes "0 < n" and "list_all is_ws w"
  shows "read_value n (w @ js ''true'' @ rest) = Some (JBool True, rest)"
proof -
  from assms(1) obtain m where n: "n = Suc m" by (cases n) auto
  have "skip_ws (w @ js ''true'' @ rest) = 0x74 # js ''rue'' @ rest"
    using skip_ws_ws_Cons [OF assms(2), of "0x74" "js ''rue'' @ rest"]
    by (simp add: js_def is_ws_def)
  then show ?thesis
    by (simp add: n) (simp add: js_def)
qed

lemma read_value_false:
  assumes "0 < n" and "list_all is_ws w"
  shows "read_value n (w @ js ''false'' @ rest) = Some (JBool False, rest)"
proof -
  from assms(1) obtain m where n: "n = Suc m" by (cases n) auto
  have "skip_ws (w @ js ''false'' @ rest) = 0x66 # js ''alse'' @ rest"
    using skip_ws_ws_Cons [OF assms(2), of "0x66" "js ''alse'' @ rest"]
    by (simp add: js_def is_ws_def)
  then show ?thesis
    by (simp add: n) (simp add: js_def)
qed

lemma read_value_string:
  assumes "0 < n" and "list_all is_ws w"
  shows "read_value n (w @ QuoteJSONString s @ rest) = Some (JStr s, rest)"
proof -
  from assms(1) obtain m where n: "n = Suc m" by (cases n) auto
  have "skip_ws (w @ QuoteJSONString s @ rest) = 0x22 # json_escape s @ 0x22 # rest"
    using skip_ws_ws_Cons [OF assms(2), of "0x22" "json_escape s @ 0x22 # rest"]
    by (simp add: QuoteJSONString_def is_ws_def)
  then show ?thesis
    by (simp add: n read_string_json_escape)
qed

lemma int_toString_starts:
  obtains c cs where "int_toString k = c # cs" and "c = 0x2D \<or> is_digit c"
proof (cases "k < 0")
  case True
  then show ?thesis using that by (simp add: int_toString_def)
next
  case False
  obtain c cs where c: "digits (nat k) = c # cs"
    using digits_nonempty [of "nat k"] by (cases "digits (nat k)") auto
  with digits_all_digits [of "nat k"] have "is_digit c" by simp
  with c False show ?thesis using that by (simp add: int_toString_def)
qed

lemma read_value_number:
  assumes "0 < n" and "list_all is_ws w" and "ends_number rest"
  shows "read_value n (w @ int_toString (sint k) @ rest) = Some (JNum k, rest)"
proof -
  from assms(1) obtain m where n: "n = Suc m" by (cases n) auto
  obtain c cs where t: "int_toString (sint k) = c # cs" and c: "c = 0x2D \<or> is_digit c"
    by (rule int_toString_starts)
  from c have nws: "\<not> is_ws c" and c1: "c \<noteq> 0x5B" "c \<noteq> 0x7B" "c \<noteq> 0x22"
    "c \<noteq> 0x6E" "c \<noteq> 0x74" "c \<noteq> 0x66"
    using digit_not_minus [of c] by (auto simp add: is_ws_def)
  have s: "skip_ws (w @ int_toString (sint k) @ rest) = c # cs @ rest"
    using skip_ws_ws_Cons [OF assms(2) nws, of "cs @ rest"] t by simp
  have l: "take 4 (c # cs @ rest) \<noteq> js ''null''" "take 4 (c # cs @ rest) \<noteq> js ''true''"
    "take 5 (c # cs @ rest) \<noteq> js ''false''"
    using c1 by (auto simp add: js_def take_Cons')
  have "read_number (c # cs @ rest) = Some (JNum k, rest)"
    using read_number_int_toString [OF assms(3), of k] t by simp
  with s l c1 show ?thesis
    by (simp add: n)
qed

lemma read_value_empty_array:
  assumes "0 < n" and "list_all is_ws w"
  shows "read_value n (w @ [0x5B, 0x5D] @ rest) = Some (JArray [], rest)"
proof -
  from assms(1) obtain m where n: "n = Suc m" by (cases n) auto
  have "skip_ws (w @ [0x5B, 0x5D] @ rest) = 0x5B # 0x5D # rest"
    using skip_ws_ws_Cons [OF assms(2), of "0x5B" "0x5D # rest"] by (simp add: is_ws_def)
  moreover have "skip_ws (0x5D # rest) = 0x5D # rest"
    by (rule skip_ws_Cons) (simp add: is_ws_def)
  ultimately show ?thesis by (simp add: n)
qed

lemma read_value_empty_object:
  assumes "0 < n" and "list_all is_ws w"
  shows "read_value n (w @ [0x7B, 0x7D] @ rest) = Some (JObject [], rest)"
proof -
  from assms(1) obtain m where n: "n = Suc m" by (cases n) auto
  have "skip_ws (w @ [0x7B, 0x7D] @ rest) = 0x7B # 0x7D # rest"
    using skip_ws_ws_Cons [OF assms(2), of "0x7B" "0x7D # rest"] by (simp add: is_ws_def)
  moreover have "skip_ws (0x7D # rest) = 0x7D # rest"
    by (rule skip_ws_Cons) (simp add: is_ws_def)
  ultimately show ?thesis by (simp add: n)
qed

lemma read_value_array:
  assumes "list_all is_ws w" and "skip_ws body = d # ds" and "d \<noteq> 0x5D"
    and "read_elements m body = Some (xs, rest)"
  shows "read_value (Suc m) (w @ 0x5B # body) = Some (JArray xs, rest)"
proof -
  have "skip_ws (w @ 0x5B # body) = 0x5B # body"
    using skip_ws_ws_Cons [OF assms(1), of "0x5B" body] by (simp add: is_ws_def)
  with assms(2,3,4) show ?thesis by simp
qed

lemma read_value_object:
  assumes "list_all is_ws w" and "skip_ws body = d # ds" and "d \<noteq> 0x7D"
    and "read_members m body = Some (kvs, rest)"
  shows "read_value (Suc m) (w @ 0x7B # body) = Some (JObject kvs, rest)"
proof -
  have "skip_ws (w @ 0x7B # body) = 0x7B # body"
    using skip_ws_ws_Cons [OF assms(1), of "0x7B" body] by (simp add: is_ws_def)
  with assms(2,3,4) show ?thesis by simp
qed

lemma read_elements_last:
  assumes "read_value m s = Some (x, w @ 0x5D # rest)" and "list_all is_ws w"
  shows "read_elements (Suc m) s = Some ([x], rest)"
proof -
  have "skip_ws (w @ 0x5D # rest) = 0x5D # rest"
    using skip_ws_ws_Cons [OF assms(2), of "0x5D" rest] by (simp add: is_ws_def)
  with assms(1) show ?thesis by simp
qed

lemma read_elements_more:
  assumes "read_value m s = Some (x, 0x2C # after)"
    and "read_elements m after = Some (xs, rest)"
  shows "read_elements (Suc m) s = Some (x # xs, rest)"
proof -
  have "skip_ws (0x2C # after) = 0x2C # after"
    by (rule skip_ws_Cons) (simp add: is_ws_def)
  with assms show ?thesis by simp
qed

lemma read_members_key:
  assumes "list_all is_ws w" and "list_all is_ws sp"
  shows "read_members (Suc m) (w @ QuoteJSONString k @ [0x3A] @ sp @ s) =
     (case read_value m (sp @ s) of
        None \<Rightarrow> None
      | Some (v, rest') \<Rightarrow>
          (case skip_ws rest' of
             [] \<Rightarrow> None
           | c # cs \<Rightarrow>
               if c = 0x7D then Some ([(k, v)], cs)
               else if c = 0x2C then
                 map_option (\<lambda>(kvs, rest''). ((k, v) # kvs, rest'')) (read_members m cs)
               else None))"
proof -
  have "skip_ws (w @ QuoteJSONString k @ [0x3A] @ sp @ s)
      = 0x22 # json_escape k @ 0x22 # 0x3A # sp @ s"
    using skip_ws_ws_Cons [OF assms(1), of "0x22" "json_escape k @ 0x22 # 0x3A # sp @ s"]
    by (simp add: QuoteJSONString_def is_ws_def)
  moreover have "skip_ws (0x3A # sp @ s) = 0x3A # sp @ s"
    by (rule skip_ws_Cons) (simp add: is_ws_def)
  ultimately show ?thesis
    by (simp add: read_string_json_escape)
qed

lemma read_members_last:
  assumes "list_all is_ws w" and "list_all is_ws sp" and "list_all is_ws w3"
    and "read_value m (sp @ s) = Some (v, w3 @ 0x7D # rest)"
  shows "read_members (Suc m) (w @ QuoteJSONString k @ [0x3A] @ sp @ s) = Some ([(k, v)], rest)"
proof -
  have "skip_ws (w3 @ 0x7D # rest) = 0x7D # rest"
    using skip_ws_ws_Cons [OF assms(3), of "0x7D" rest] by (simp add: is_ws_def)
  with assms(4) show ?thesis
    unfolding read_members_key [OF assms(1,2)] by simp
qed

lemma read_members_more:
  assumes "list_all is_ws w" and "list_all is_ws sp"
    and "read_value m (sp @ s) = Some (v, 0x2C # after)"
    and "read_members m after = Some (kvs, rest)"
  shows "read_members (Suc m) (w @ QuoteJSONString k @ [0x3A] @ sp @ s) = Some ((k, v) # kvs, rest)"
proof -
  have "skip_ws (0x2C # after) = 0x2C # after"
    by (rule skip_ws_Cons) (simp add: is_ws_def)
  with assms(3,4) show ?thesis
    unfolding read_members_key [OF assms(1,2)] by simp
qed


lemma join_Cons:
  "join sep (p # ps) = p @ (if ps = [] then [] else sep @ join sep ps)"
  by (cases ps) simp_all

lemma ends_number_delimiter:
  assumes "list_all is_ws w" and "c = 0x5D \<or> c = 0x7D \<or> c = 0x2C"
  shows "ends_number (w @ c # r)"
proof (cases w)
  case Nil
  with assms(2) show ?thesis
    by (auto simp add: ends_number_def is_digit_def)
next
  case (Cons a as)
  with assms(1) have "is_ws a" by simp
  then have "\<not> is_digit a" "a \<noteq> 0x2E" "a \<noteq> 0x65" "a \<noteq> 0x45"
    by (auto simp add: is_ws_def is_digit_def)
  with Cons show ?thesis
    by (simp add: ends_number_def)
qed

lemma enclose_shape:
  assumes "list_all is_ws gap" and "list_all is_ws indent" and "parts \<noteq> []"
  obtains w1 w2 w3 where "list_all is_ws w1" and "list_all is_ws w2" and "list_all is_ws w3"
    and "enclose gap indent opening closing parts
          = opening # w1 @ join (0x2C # w2) parts @ w3 @ [closing]"
proof (cases "gap = []")
  case True
  with assms(3) have "enclose gap indent opening closing parts
      = opening # [] @ join (0x2C # []) parts @ [] @ [closing]"
    by (simp add: enclose_def)
  then show ?thesis using that [of "[]" "[]" "[]"] by simp
next
  case False
  with assms(3) have "enclose gap indent opening closing parts
      = opening # (0x0A # indent @ gap) @ join (0x2C # (0x0A # indent @ gap)) parts
          @ (0x0A # indent) @ [closing]"
    by (simp add: enclose_def)
  moreover have "list_all is_ws (0x0A # indent @ gap)" "list_all is_ws (0x0A # indent)"
    using assms(1,2) by (simp_all add: is_ws_def)
  ultimately show ?thesis
    using that [of "0x0A # indent @ gap" "0x0A # indent @ gap" "0x0A # indent"] by blast
qed


lemma reads_back_atoms:
  "reads_back gap indent JNull"
  "reads_back gap indent (JBool b)"
  "reads_back gap indent (JStr s)"
proof -
  show "reads_back gap indent JNull"
    unfolding reads_back_def
    by (simp add: read_value_null) (simp add: js_def is_ws_def)
  show "reads_back gap indent (JBool b)"
    unfolding reads_back_def
    by (cases b) (simp_all add: read_value_true read_value_false, simp_all add: js_def is_ws_def)
  show "reads_back gap indent (JStr s)"
    unfolding reads_back_def
    by (simp add: read_value_string) (simp add: QuoteJSONString_def is_ws_def)
qed

lemma reads_back_number: "reads_back gap indent (JNum k)"
proof -
  obtain c cs where t: "int_toString (sint k) = c # cs" and c: "c = 0x2D \<or> is_digit c"
    by (rule int_toString_starts)
  from c have "\<not> is_ws c" "c \<noteq> 0x5D" "c \<noteq> 0x7D"
    using digit_not_minus [of c] by (auto simp add: is_ws_def)
  with t have "int_toString (sint k) \<noteq> []" "\<not> is_ws (hd (int_toString (sint k)))"
    "hd (int_toString (sint k)) \<noteq> 0x5D" "hd (int_toString (sint k)) \<noteq> 0x7D"
    by simp_all
  then show ?thesis
    unfolding reads_back_def by (simp add: read_value_number)
qed

lemma elements_read_back:
  assumes "\<forall>x \<in> set xs. reads_back gap indent x"
  shows "\<exists>parts. SerializeJSONArray gap indent xs = Inr parts
    \<and> (parts = [] \<longleftrightarrow> xs = [])
    \<and> (xs \<noteq> [] \<longrightarrow> hd parts \<noteq> [] \<and> \<not> is_ws (hd (hd parts)) \<and> hd (hd parts) \<noteq> 0x5D)
    \<and> (\<forall>n w1 w2 w3 rest. xs \<noteq> [] \<longrightarrow> nodes_elements xs \<le> n \<longrightarrow>
          list_all is_ws w1 \<longrightarrow> list_all is_ws w2 \<longrightarrow> list_all is_ws w3 \<longrightarrow>
          read_elements n (w1 @ join (0x2C # w2) parts @ w3 @ 0x5D # rest) = Some (xs, rest))"
  using assms
proof (induction xs)
  case Nil
  then show ?case by simp
next
  case (Cons x xs)
  from Cons.prems obtain t where t: "SerializeJSONProperty gap indent x = Inr (Some t)"
    and t0: "t \<noteq> []" "\<not> is_ws (hd t)" "hd t \<noteq> 0x5D"
    and tr: "\<And>n w rest. nodes x \<le> n \<Longrightarrow> list_all is_ws w \<Longrightarrow> ends_number rest \<Longrightarrow>
               read_value n (w @ t @ rest) = Some (x, rest)"
    unfolding reads_back_def by auto
  from Cons obtain parts where p: "SerializeJSONArray gap indent xs = Inr parts"
    and p0: "parts = [] \<longleftrightarrow> xs = []"
    and pr: "\<And>n w1 w2 w3 rest. xs \<noteq> [] \<Longrightarrow> nodes_elements xs \<le> n \<Longrightarrow>
          list_all is_ws w1 \<Longrightarrow> list_all is_ws w2 \<Longrightarrow> list_all is_ws w3 \<Longrightarrow>
          read_elements n (w1 @ join (0x2C # w2) parts @ w3 @ 0x5D # rest) = Some (xs, rest)"
    by auto
  have s: "SerializeJSONArray gap indent (x # xs) = Inr (t # parts)"
    using t p by simp
  have r: "read_elements n (w1 @ join (0x2C # w2) (t # parts) @ w3 @ 0x5D # rest)
      = Some (x # xs, rest)"
    if n: "nodes_elements (x # xs) \<le> n"
      and w: "list_all is_ws w1" "list_all is_ws w2" "list_all is_ws w3"
    for n w1 w2 w3 rest
  proof -
    from n obtain m where m: "n = Suc m" "nodes x \<le> m" "nodes_elements xs \<le> m"
      by (cases n) auto
    show ?thesis
    proof (cases "xs = []")
      case True
      with p0 have "parts = []" by simp
      moreover have "read_value m (w1 @ t @ (w3 @ 0x5D # rest)) = Some (x, w3 @ 0x5D # rest)"
        using m(2) w(1) ends_number_delimiter [OF w(3), of "0x5D" rest] by (intro tr) simp_all
      ultimately show ?thesis
        using read_elements_last [of m "w1 @ t @ w3 @ 0x5D # rest" x w3 rest] w(3) True m(1)
        by simp
    next
      case False
      with p0 have "parts \<noteq> []" by simp
      then have j: "join (0x2C # w2) (t # parts) = t @ 0x2C # w2 @ join (0x2C # w2) parts"
        by (simp add: join_Cons)
      have "read_value m (w1 @ t @ (0x2C # w2 @ join (0x2C # w2) parts @ w3 @ 0x5D # rest))
          = Some (x, 0x2C # w2 @ join (0x2C # w2) parts @ w3 @ 0x5D # rest)"
        using m(2) w(1)
          ends_number_delimiter [of "[]" "0x2C" "w2 @ join (0x2C # w2) parts @ w3 @ 0x5D # rest"]
        by (intro tr) simp_all
      moreover have "read_elements m (w2 @ join (0x2C # w2) parts @ w3 @ 0x5D # rest)
          = Some (xs, rest)"
        using False m(3) w by (intro pr)
      ultimately show ?thesis
        using read_elements_more [of m
            "w1 @ t @ 0x2C # w2 @ join (0x2C # w2) parts @ w3 @ 0x5D # rest" x
            "w2 @ join (0x2C # w2) parts @ w3 @ 0x5D # rest" xs rest] j m(1)
        by simp
    qed
  qed
  from s t0 r show ?case by simp
qed


lemma members_read_back:
  assumes "\<forall>kv \<in> set kvs. reads_back gap indent (snd kv)"
  shows "\<exists>parts. SerializeJSONObject gap indent kvs = Inr parts
    \<and> (parts = [] \<longleftrightarrow> kvs = [])
    \<and> (kvs \<noteq> [] \<longrightarrow> hd parts \<noteq> [] \<and> hd (hd parts) = 0x22)
    \<and> (\<forall>n w1 w2 w3 rest. kvs \<noteq> [] \<longrightarrow> nodes_members kvs \<le> n \<longrightarrow>
          list_all is_ws w1 \<longrightarrow> list_all is_ws w2 \<longrightarrow> list_all is_ws w3 \<longrightarrow>
          read_members n (w1 @ join (0x2C # w2) parts @ w3 @ 0x7D # rest) = Some (kvs, rest))"
  using assms
proof (induction kvs)
  case Nil
  then show ?case by simp
next
  case (Cons kv kvs)
  obtain k v where kv: "kv = (k, v)" by (cases kv)
  define sp :: jsstring where "sp = (if gap = [] then [] else [0x20])"
  have sp: "list_all is_ws sp" by (simp add: sp_def is_ws_def)
  from Cons.prems kv obtain t where t: "SerializeJSONProperty gap indent v = Inr (Some t)"
    and tr: "\<And>n w rest. nodes v \<le> n \<Longrightarrow> list_all is_ws w \<Longrightarrow> ends_number rest \<Longrightarrow>
               read_value n (w @ t @ rest) = Some (v, rest)"
    unfolding reads_back_def by auto
  from Cons obtain parts where p: "SerializeJSONObject gap indent kvs = Inr parts"
    and p0: "parts = [] \<longleftrightarrow> kvs = []"
    and pr: "\<And>n w1 w2 w3 rest. kvs \<noteq> [] \<Longrightarrow> nodes_members kvs \<le> n \<Longrightarrow>
          list_all is_ws w1 \<Longrightarrow> list_all is_ws w2 \<Longrightarrow> list_all is_ws w3 \<Longrightarrow>
          read_members n (w1 @ join (0x2C # w2) parts @ w3 @ 0x7D # rest) = Some (kvs, rest)"
    by auto
  let ?member = "QuoteJSONString k @ [0x3A] @ sp @ t"
  have s: "SerializeJSONObject gap indent (kv # kvs) = Inr (?member # parts)"
    using t p kv by (simp add: sp_def)
  have h: "?member \<noteq> []" "hd ?member = 0x22"
    by (simp_all add: QuoteJSONString_def)
  have r: "read_members n (w1 @ join (0x2C # w2) (?member # parts) @ w3 @ 0x7D # rest)
      = Some (kv # kvs, rest)"
    if n: "nodes_members (kv # kvs) \<le> n"
      and w: "list_all is_ws w1" "list_all is_ws w2" "list_all is_ws w3"
    for n w1 w2 w3 rest
  proof -
    from n kv obtain m where m: "n = Suc m" "nodes v \<le> m" "nodes_members kvs \<le> m"
      by (cases n) auto
    show ?thesis
    proof (cases "kvs = []")
      case True
      with p0 have "parts = []" by simp
      moreover have "read_value m (sp @ t @ (w3 @ 0x7D # rest)) = Some (v, w3 @ 0x7D # rest)"
        using m(2) sp ends_number_delimiter [OF w(3), of "0x7D" rest] by (intro tr) simp_all
      ultimately show ?thesis
        using read_members_last [OF w(1) sp w(3), of m "t @ w3 @ 0x7D # rest" v rest k]
          True m(1) kv
        by simp
    next
      case False
      with p0 have "parts \<noteq> []" by simp
      then have j: "join (0x2C # w2) (?member # parts)
          = ?member @ 0x2C # w2 @ join (0x2C # w2) parts"
        by (simp add: join_Cons)
      have "read_value m (sp @ t @ (0x2C # w2 @ join (0x2C # w2) parts @ w3 @ 0x7D # rest))
          = Some (v, 0x2C # w2 @ join (0x2C # w2) parts @ w3 @ 0x7D # rest)"
        using m(2) sp
          ends_number_delimiter [of "[]" "0x2C" "w2 @ join (0x2C # w2) parts @ w3 @ 0x7D # rest"]
        by (intro tr) simp_all
      moreover have "read_members m (w2 @ join (0x2C # w2) parts @ w3 @ 0x7D # rest)
          = Some (kvs, rest)"
        using False m(3) w by (intro pr)
      ultimately show ?thesis
        using read_members_more [OF w(1) sp, of m
            "t @ 0x2C # w2 @ join (0x2C # w2) parts @ w3 @ 0x7D # rest" v
            "w2 @ join (0x2C # w2) parts @ w3 @ 0x7D # rest" kvs rest k] j m(1) kv
        by simp
    qed
  qed
  from s h r show ?case by simp
qed

lemma reads_back_array:
  assumes "list_all is_ws gap" and "list_all is_ws indent"
    and "\<forall>x \<in> set xs. reads_back gap (indent @ gap) x"
  shows "reads_back gap indent (JArray xs)"
proof -
  from elements_read_back [OF assms(3)]
  obtain parts where p: "SerializeJSONArray gap (indent @ gap) xs = Inr parts"
    and p0: "parts = [] \<longleftrightarrow> xs = []"
    and ph: "xs \<noteq> [] \<Longrightarrow> hd parts \<noteq> [] \<and> \<not> is_ws (hd (hd parts)) \<and> hd (hd parts) \<noteq> 0x5D"
    and pr: "\<And>n w1 w2 w3 rest. xs \<noteq> [] \<Longrightarrow> nodes_elements xs \<le> n \<Longrightarrow>
          list_all is_ws w1 \<Longrightarrow> list_all is_ws w2 \<Longrightarrow> list_all is_ws w3 \<Longrightarrow>
          read_elements n (w1 @ join (0x2C # w2) parts @ w3 @ 0x5D # rest) = Some (xs, rest)"
    by auto
  let ?t = "enclose gap indent 0x5B 0x5D parts"
  have s: "SerializeJSONProperty gap indent (JArray xs) = Inr (Some ?t)"
    using p by simp
  have h: "?t \<noteq> []" "hd ?t = 0x5B"
    by (simp_all add: enclose_def)
  have r: "read_value n (w @ ?t @ rest) = Some (JArray xs, rest)"
    if n: "nodes (JArray xs) \<le> n" and w: "list_all is_ws w" for n w rest
  proof (cases "xs = []")
    case True
    with p0 have "?t = [0x5B, 0x5D]" by (simp add: enclose_def)
    with True show ?thesis
      using read_value_empty_array [of n w rest] n w by simp
  next
    case False
    with p0 have ne: "parts \<noteq> []" by simp
    from n obtain m where m: "n = Suc m" "nodes_elements xs \<le> m"
      by (cases n) auto
    obtain w1 w2 w3 where ws: "list_all is_ws w1" "list_all is_ws w2" "list_all is_ws w3"
      and e: "?t = 0x5B # w1 @ join (0x2C # w2) parts @ w3 @ [0x5D]"
      by (rule enclose_shape [OF assms(1,2) ne])
    let ?body = "w1 @ join (0x2C # w2) parts @ w3 @ 0x5D # rest"
    from ph [OF False] obtain d ds where d: "hd parts = d # ds" "\<not> is_ws d" "d \<noteq> 0x5D"
      by (cases "hd parts") auto
    from ne obtain q qs where q: "parts = q # qs" by (cases parts) auto
    with d have "join (0x2C # w2) parts = d # ds @ (if qs = [] then [] else (0x2C # w2) @ join (0x2C # w2) qs)"
      by (simp add: join_Cons)
    then have "skip_ws ?body
        = d # ds @ (if qs = [] then [] else (0x2C # w2) @ join (0x2C # w2) qs) @ w3 @ 0x5D # rest"
      using skip_ws_ws_Cons [OF ws(1) d(2)] by simp
    moreover have "read_elements m ?body = Some (xs, rest)"
      using False m(2) ws by (intro pr)
    ultimately have "read_value (Suc m) (w @ 0x5B # ?body) = Some (JArray xs, rest)"
      using d(3) w by (intro read_value_array) auto
    with e m(1) show ?thesis by simp
  qed
  from s h r show ?thesis
    unfolding reads_back_def by (simp add: is_ws_def)
qed

lemma reads_back_object:
  assumes "list_all is_ws gap" and "list_all is_ws indent"
    and "\<forall>kv \<in> set kvs. reads_back gap (indent @ gap) (snd kv)"
  shows "reads_back gap indent (JObject kvs)"
proof -
  from members_read_back [OF assms(3)]
  obtain parts where p: "SerializeJSONObject gap (indent @ gap) kvs = Inr parts"
    and p0: "parts = [] \<longleftrightarrow> kvs = []"
    and ph: "kvs \<noteq> [] \<Longrightarrow> hd parts \<noteq> [] \<and> hd (hd parts) = 0x22"
    and pr: "\<And>n w1 w2 w3 rest. kvs \<noteq> [] \<Longrightarrow> nodes_members kvs \<le> n \<Longrightarrow>
          list_all is_ws w1 \<Longrightarrow> list_all is_ws w2 \<Longrightarrow> list_all is_ws w3 \<Longrightarrow>
          read_members n (w1 @ join (0x2C # w2) parts @ w3 @ 0x7D # rest) = Some (kvs, rest)"
    by auto
  let ?t = "enclose gap indent 0x7B 0x7D parts"
  have s: "SerializeJSONProperty gap indent (JObject kvs) = Inr (Some ?t)"
    using p by simp
  have h: "?t \<noteq> []" "hd ?t = 0x7B"
    by (simp_all add: enclose_def)
  have r: "read_value n (w @ ?t @ rest) = Some (JObject kvs, rest)"
    if n: "nodes (JObject kvs) \<le> n" and w: "list_all is_ws w" for n w rest
  proof (cases "kvs = []")
    case True
    with p0 have "?t = [0x7B, 0x7D]" by (simp add: enclose_def)
    with True show ?thesis
      using read_value_empty_object [of n w rest] n w by simp
  next
    case False
    with p0 have ne: "parts \<noteq> []" by simp
    from n obtain m where m: "n = Suc m" "nodes_members kvs \<le> m"
      by (cases n) auto
    obtain w1 w2 w3 where ws: "list_all is_ws w1" "list_all is_ws w2" "list_all is_ws w3"
      and e: "?t = 0x7B # w1 @ join (0x2C # w2) parts @ w3 @ [0x7D]"
      by (rule enclose_shape [OF assms(1,2) ne])
    let ?body = "w1 @ join (0x2C # w2) parts @ w3 @ 0x7D # rest"
    from ph [OF False] obtain ds where d: "hd parts = 0x22 # ds"
      by (cases "hd parts") auto
    from ne obtain q qs where q: "parts = q # qs" by (cases parts) auto
    with d have "join (0x2C # w2) parts = 0x22 # ds @ (if qs = [] then [] else (0x2C # w2) @ join (0x2C # w2) qs)"
      by (simp add: join_Cons)
    then have "skip_ws ?body
        = 0x22 # ds @ (if qs = [] then [] else (0x2C # w2) @ join (0x2C # w2) qs) @ w3 @ 0x7D # rest"
      using skip_ws_ws_Cons [OF ws(1), of "0x22"] by (simp add: is_ws_def)
    moreover have "read_members m ?body = Some (kvs, rest)"
      using False m(2) ws by (intro pr)
    ultimately have "read_value (Suc m) (w @ 0x7B # ?body) = Some (JObject kvs, rest)"
      using w by (intro read_value_object) auto
    with e m(1) show ?thesis by simp
  qed
  from s h r show ?thesis
    unfolding reads_back_def by (simp add: is_ws_def)
qed

lemma json_value_reads_back:
  assumes "list_all is_ws gap"
  shows "json_value v \<Longrightarrow> list_all is_ws indent \<Longrightarrow> reads_back gap indent v"
proof (induction v arbitrary: indent)
  case (JArray xs)
  have "\<forall>x \<in> set xs. reads_back gap (indent @ gap) x"
  proof
    fix x assume x: "x \<in> set xs"
    with JArray.prems(1) have "json_value x" by (simp add: list_all_iff)
    moreover have "list_all is_ws (indent @ gap)"
      using assms JArray.prems(2) by simp
    ultimately show "reads_back gap (indent @ gap) x"
      using JArray.IH [of x "indent @ gap"] x by simp
  qed
  with assms JArray.prems(2) show ?case by (rule reads_back_array)
next
  case (JObject kvs)
  have "\<forall>kv \<in> set kvs. reads_back gap (indent @ gap) (snd kv)"
  proof
    fix kv assume kv: "kv \<in> set kvs"
    obtain k v where e: "kv = (k, v)" by (cases kv)
    with kv JObject.prems(1) have "json_value v" by (auto simp add: list_all_iff)
    moreover have "list_all is_ws (indent @ gap)"
      using assms JObject.prems(2) by simp
    ultimately have "reads_back gap (indent @ gap) v"
      using JObject.IH [of kv v "indent @ gap"] kv e by simp
    with e show "reads_back gap (indent @ gap) (snd kv)" by simp
  qed
  with assms JObject.prems(2) show ?case by (rule reads_back_object)
qed (simp_all add: reads_back_atoms reads_back_number)


lemma length_join_Cons:
  "length (join sep (p # ps))
     = length p + (if ps = [] then 0 else length sep + length (join sep ps))"
  by (simp add: join_Cons)

lemma nodes_elements_le:
  assumes "\<forall>x \<in> set xs. \<exists>t. SerializeJSONProperty gap indent x = Inr (Some t) \<and> nodes x \<le> length t"
    and "sep \<noteq> []"
  shows "\<exists>parts. SerializeJSONArray gap indent xs = Inr parts
    \<and> (parts = [] \<longleftrightarrow> xs = [])
    \<and> nodes_elements xs \<le> Suc (length (join sep parts))"
  using assms(1)
proof (induction xs)
  case Nil
  then show ?case by simp
next
  case (Cons x xs)
  from Cons.prems obtain t where t: "SerializeJSONProperty gap indent x = Inr (Some t)"
    and tl: "nodes x \<le> length t" by auto
  from Cons obtain parts where p: "SerializeJSONArray gap indent xs = Inr parts"
    and p0: "parts = [] \<longleftrightarrow> xs = []"
    and pl: "nodes_elements xs \<le> Suc (length (join sep parts))" by auto
  have "SerializeJSONArray gap indent (x # xs) = Inr (t # parts)"
    using t p by simp
  moreover have "nodes_elements (x # xs) \<le> Suc (length (join sep (t # parts)))"
  proof (cases "xs = []")
    case True
    with tl show ?thesis by (simp add: length_join_Cons)
  next
    case False
    with p0 have "parts \<noteq> []" by simp
    moreover from assms(2) have "1 \<le> length sep" by (cases sep) simp_all
    ultimately show ?thesis
      using tl pl by (simp add: length_join_Cons)
  qed
  ultimately show ?case by simp
qed

lemma nodes_members_le:
  assumes "\<forall>kv \<in> set kvs. \<exists>t. SerializeJSONProperty gap indent (snd kv) = Inr (Some t)
      \<and> nodes (snd kv) \<le> length t"
    and "sep \<noteq> []"
  shows "\<exists>parts. SerializeJSONObject gap indent kvs = Inr parts
    \<and> (parts = [] \<longleftrightarrow> kvs = [])
    \<and> nodes_members kvs \<le> Suc (length (join sep parts))"
  using assms(1)
proof (induction kvs)
  case Nil
  then show ?case by simp
next
  case (Cons kv kvs)
  obtain k v where kv: "kv = (k, v)" by (cases kv)
  from Cons.prems kv obtain t where t: "SerializeJSONProperty gap indent v = Inr (Some t)"
    and tl: "nodes v \<le> length t" by auto
  from Cons obtain parts where p: "SerializeJSONObject gap indent kvs = Inr parts"
    and p0: "parts = [] \<longleftrightarrow> kvs = []"
    and pl: "nodes_members kvs \<le> Suc (length (join sep parts))" by auto
  let ?member = "QuoteJSONString k @ [0x3A] @ (if gap = [] then [] else [0x20]) @ t"
  have "SerializeJSONObject gap indent (kv # kvs) = Inr (?member # parts)"
    using t p kv by simp
  moreover have "nodes_members (kv # kvs) \<le> Suc (length (join sep (?member # parts)))"
  proof (cases "kvs = []")
    case True
    with tl kv show ?thesis by (simp add: length_join_Cons)
  next
    case False
    with p0 have "parts \<noteq> []" by simp
    moreover from assms(2) have "1 \<le> length sep" by (cases sep) simp_all
    ultimately show ?thesis
      using tl pl kv by (simp add: length_join_Cons)
  qed
  ultimately show ?case by simp
qed

lemma length_enclose:
  assumes "parts \<noteq> []"
  shows "\<exists>sep. sep \<noteq> [] \<and> Suc (Suc (length (join sep parts)))
           \<le> length (enclose gap indent opening closing parts)"
proof (cases "gap = []")
  case True
  with assms show ?thesis
    by (intro exI [of _ "[0x2C]"]) (simp add: enclose_def)
next
  case False
  with assms show ?thesis
    by (intro exI [of _ "[0x2C, 0x0A] @ (indent @ gap)"]) (simp add: enclose_def)
qed

lemma int_toString_nonempty: "int_toString k \<noteq> []"
  using digits_nonempty by (simp add: int_toString_def)

lemma nodes_le_length:
  "json_value v \<Longrightarrow> \<exists>t. SerializeJSONProperty gap indent v = Inr (Some t) \<and> nodes v \<le> length t"
proof (induction v arbitrary: indent)
  case (JArray xs)
  have "\<forall>x \<in> set xs. \<exists>t. SerializeJSONProperty gap (indent @ gap) x = Inr (Some t)
      \<and> nodes x \<le> length t"
    using JArray by (simp add: list_all_iff)
  then have e: "\<exists>parts. SerializeJSONArray gap (indent @ gap) xs = Inr parts
      \<and> (parts = [] \<longleftrightarrow> xs = [])
      \<and> nodes_elements xs \<le> Suc (length (join sep parts))" if "sep \<noteq> []" for sep
    using that by (rule nodes_elements_le)
  from e [of "[0x2C]"] obtain parts where p: "SerializeJSONArray gap (indent @ gap) xs = Inr parts"
    and p0: "parts = [] \<longleftrightarrow> xs = []" by auto
  show ?case
  proof (cases "xs = []")
    case True
    with p p0 show ?thesis by (simp add: enclose_def)
  next
    case False
    with p0 have "parts \<noteq> []" by simp
    then obtain sep where sep: "sep \<noteq> []"
      and l: "Suc (Suc (length (join sep parts))) \<le> length (enclose gap indent 0x5B 0x5D parts)"
      using length_enclose [of parts gap indent "0x5B" "0x5D"] by blast
    from e [OF sep] p have "nodes_elements xs \<le> Suc (length (join sep parts))" by simp
    with l p show ?thesis by simp
  qed
next
  case (JObject kvs)
  have "\<forall>kv \<in> set kvs. \<exists>t. SerializeJSONProperty gap (indent @ gap) (snd kv) = Inr (Some t)
      \<and> nodes (snd kv) \<le> length t"
  proof
    fix kv assume kv: "kv \<in> set kvs"
    obtain k v where e: "kv = (k, v)" by (cases kv)
    with kv JObject.prems have "json_value v" by (auto simp add: list_all_iff)
    then have "\<exists>t. SerializeJSONProperty gap (indent @ gap) v = Inr (Some t) \<and> nodes v \<le> length t"
      using JObject.IH [of kv v "indent @ gap"] kv e by simp
    with e show "\<exists>t. SerializeJSONProperty gap (indent @ gap) (snd kv) = Inr (Some t)
      \<and> nodes (snd kv) \<le> length t" by simp
  qed
  then have e: "\<exists>parts. SerializeJSONObject gap (indent @ gap) kvs = Inr parts
      \<and> (parts = [] \<longleftrightarrow> kvs = [])
      \<and> nodes_members kvs \<le> Suc (length (join sep parts))" if "sep \<noteq> []" for sep
    using that by (rule nodes_members_le)
  from e [of "[0x2C]"] obtain parts where p: "SerializeJSONObject gap (indent @ gap) kvs = Inr parts"
    and p0: "parts = [] \<longleftrightarrow> kvs = []" by auto
  show ?case
  proof (cases "kvs = []")
    case True
    with p p0 show ?thesis by (simp add: enclose_def)
  next
    case False
    with p0 have "parts \<noteq> []" by simp
    then obtain sep where sep: "sep \<noteq> []"
      and l: "Suc (Suc (length (join sep parts))) \<le> length (enclose gap indent 0x7B 0x7D parts)"
      using length_enclose [of parts gap indent "0x7B" "0x7D"] by blast
    from e [OF sep] p have "nodes_members kvs \<le> Suc (length (join sep parts))" by simp
    with l p show ?thesis by simp
  qed
qed (simp_all add: js_def QuoteJSONString_def int_toString_nonempty Suc_le_eq)

lemma JSON_parse_stringify:
  assumes "json_value v" and "list_all is_ws gap"
  shows "\<exists>t. SerializeJSONProperty gap [] v = Inr (Some t) \<and> JSON_parse t = Some v"
proof -
  from nodes_le_length [OF assms(1), of gap "[]"]
  obtain t where t: "SerializeJSONProperty gap [] v = Inr (Some t)" and l: "nodes v \<le> length t"
    by blast
  have "reads_back gap [] v"
    using assms by (intro json_value_reads_back) simp_all
  then obtain t' where t': "SerializeJSONProperty gap [] v = Inr (Some t')"
    and r: "\<And>n w rest. nodes v \<le> n \<Longrightarrow> list_all is_ws w \<Longrightarrow> ends_number rest \<Longrightarrow>
               read_value n (w @ t' @ rest) = Some (v, rest)"
    unfolding reads_back_def by blast
  from t t' have "t' = t" by simp
  with r [of "length t" "[]" "[]"] l have "read_value (length t) t = Some (v, [])"
    by (simp add: ends_number_def)
  with t show ?thesis
    by (simp add: JSON_parse_def skip_ws_def)
qed


lemma ErrorReport_well_formed:
  "JSON_parse (ErrorReport message) = Some (JObject [(js ''error'', JStr message)])"
proof -
  have "json_value (JObject [(js ''error'', JStr message)])" by simp
  from JSON_parse_stringify [OF this, of "[]"] show ?thesis
    by (simp only: ErrorReport_is_stringify) simp
qed

lemma serialize_json_image:
  "serializable v \<Longrightarrow>
     SerializeJSONProperty gap indent v
       = (case json_image v of None \<Rightarrow> Inr None | Some j \<Rightarrow> SerializeJSONProperty gap indent j)"
  "list_all serializable xs \<Longrightarrow>
     SerializeJSONArray gap indent xs = SerializeJSONArray gap indent (image_elements xs)"
  "list_all (\<lambda>kv. serializable (snd kv)) kvs \<Longrightarrow>
     SerializeJSONObject gap indent kvs = SerializeJSONObject gap indent (image_members kvs)"
proof (induction gap indent v and gap indent xs and gap indent kvs
    rule: SerializeJSONProperty_SerializeJSONArray_SerializeJSONObject.induct)
  case (13 gap indent x xs)
  then show ?case
    by (cases "json_image x") (auto simp add: enclose_def split: sum.splits option.splits)
next
  case (15 gap indent k v kvs)
  then show ?case
    by (cases "json_image v") (auto simp add: enclose_def split: sum.splits option.splits)
qed (simp_all add: enclose_def js_def)

lemma json_image_json_value:
  "json_image v = Some j \<Longrightarrow> json_value j"
  "list_all json_value (image_elements xs)"
  "list_all (\<lambda>kv. json_value (snd kv)) (image_members kvs)"
  by (induction v and xs and kvs arbitrary: j rule: json_image_image_elements_image_members.induct)
     (auto split: option.splits)

lemma json_image_of_json_value:
  "json_value v \<Longrightarrow> json_image v = Some v"
  "list_all json_value xs \<Longrightarrow> image_elements xs = xs"
  "list_all (\<lambda>kv. json_value (snd kv)) kvs \<Longrightarrow> image_members kvs = kvs"
  by (induction v and xs and kvs rule: json_image_image_elements_image_members.induct) auto

lemma JSON_parse_json_image:
  assumes "serializable v" and "json_image v = Some j" and "list_all is_ws gap"
  shows "\<exists>t. SerializeJSONProperty gap [] v = Inr (Some t) \<and> JSON_parse t = Some j"
proof -
  from json_image_json_value(1) [OF assms(2)] have "json_value j" .
  from JSON_parse_stringify [OF this assms(3)]
  obtain t where "SerializeJSONProperty gap [] j = Inr (Some t)" and "JSON_parse t = Some j"
    by blast
  moreover have "SerializeJSONProperty gap [] v = SerializeJSONProperty gap [] j"
    using serialize_json_image(1) [OF assms(1), of gap "[]"] assms(2) by simp
  ultimately show ?thesis by simp
qed


lemma ErrorReport_printable: "\<forall>c \<in> set (ErrorReport message). 0x20 \<le> c"
  using json_escape_printable [of message] by (auto simp add: ErrorReport_def js_def)

lemma ErrorReport_no_line_break:
  "0x0A \<notin> set (ErrorReport message)" "0x0D \<notin> set (ErrorReport message)"
proof -
  show "0x0A \<notin> set (ErrorReport message)"
  proof
    assume "0x0A \<in> set (ErrorReport message)"
    with ErrorReport_printable [of message] have "(0x20 :: 16 word) \<le> 0x0A" by blast
    then show False by simp
  qed
  show "0x0D \<notin> set (ErrorReport message)"
  proof
    assume "0x0D \<in> set (ErrorReport message)"
    with ErrorReport_printable [of message] have "(0x20 :: 16 word) \<le> 0x0D" by blast
    then show False by simp
  qed
qed

lemma process_stderr_simps:
  "process_stderr (Normal u, w) = map Line (stderr w)"
  "process_stderr (Exit code, w) = map Line (stderr w)"
  "process_stderr (Pending l, w) = map Line (stderr w)"
  "process_stderr (Throw e, w) = map Line (stderr w) @ [Uncaught e]"
  by (simp_all add: process_stderr_def)

lemma enclose_indented:
  assumes "parts \<noteq> []"
  shows "\<exists>body. enclose [0x20, 0x20] [] 0x5B 0x5D parts = [0x5B, 0x0A, 0x20, 0x20] @ body @ [0x0A, 0x5D]"
  using assms by (simp add: enclose_def)

lemma json_value_serializable:
  "json_value v \<Longrightarrow> serializable v"
  "list_all json_value xs \<Longrightarrow> list_all serializable xs"
  "list_all (\<lambda>kv. json_value (snd kv)) (kvs :: (jsstring \<times> jsval) list)
     \<Longrightarrow> list_all (\<lambda>kv. serializable (snd kv)) kvs"
  by (induction v and xs and kvs rule: json_image_image_elements_image_members.induct) auto

section \<open>The claims\<close>

text \<open>
  C1. When the search term is absent from the command line or empty, the program does
  not call the external module, writes the one line
  \<^verbatim>\<open>{"error":"No search term provided."}\<close> to standard error and nothing to standard output,
  and ends with exit status 1.
\<close>

theorem missing_search_term:
  assumes "length argv \<le> 2 \<or> argv ! 2 = []"
  shows \<open>run p argv =
           (Exit 1, \<lparr>stdout = [], stderr = [js ''{"error":"No search term provided."}''],
                     calls = []\<rparr>)
         \<and> exit_status (fst (run p argv)) = Some 1\<close>
  using run_missing [OF assms, of p] by (simp add: ErrorReport_missing)

theorem missing_search_term_witness:
  \<open>run (stub_returning (JArray [])) [js ''node'', js ''run_scraper.js''] =
     (Exit 1, \<lparr>stdout = [], stderr = [js ''{"error":"No search term provided."}''],
               calls = []\<rparr>)
   \<and> run (stub_returning (JArray [])) [js ''node'', js ''run_scraper.js'', []] =
     (Exit 1, \<lparr>stdout = [], stderr = [js ''{"error":"No search term provided."}''],
               calls = []\<rparr>)\<close>
  using missing_search_term [of "[js ''node'', js ''run_scraper.js'']" "stub_returning (JArray [])"]
    missing_search_term [of "[js ''node'', js ''run_scraper.js'', []]" "stub_returning (JArray [])"]
  by simp

text \<open>
  C2. When the search term is valid and the external module fails with an error whose
  message is the string \<open>m\<close>, the program writes one line to standard error and nothing
  else, writes nothing to standard output and ends with exit status 1. The line is
  \<^verbatim>\<open>{"error":"Scraper failed: m"}\<close> with \<open>m\<close> escaped as in a JSON string: it is
  \<^verbatim>\<open>JSON.stringify\<close> of the object whose \<^verbatim>\<open>error\<close> is \<^verbatim>\<open>"Scraper failed: " + m\<close>, it
  holds no line feed and no carriage return whatever \<open>m\<close> holds, and read as JSON it is
  that object.
\<close>

theorem provider_failure_report:
  assumes "2 < length argv" and "argv ! 2 \<noteq> []"
    and "p (RetrievalConfig (argv ! 2)) = Rejected e"
    and "get_message e = Inr (JStr m)"
  shows \<open>run p argv =
           (Exit 1, \<lparr>stdout = [],
                     stderr = [js ''{"error":"Scraper failed: '' @ json_escape m @ js ''"}''],
                     calls = [RetrievalConfig (argv ! 2)]\<rparr>)
         \<and> exit_status (fst (run p argv)) = Some 1
         \<and> SerializeJSONProperty [] [] (JObject [(js ''error'', JStr (js ''Scraper failed: '' @ m))])
             = Inr (Some (js ''{"error":"Scraper failed: '' @ json_escape m @ js ''"}''))
         \<and> process_stderr (run p argv)
             = [Line (js ''{"error":"Scraper failed: '' @ json_escape m @ js ''"}'')]
         \<and> 0x0A \<notin> set (js ''{"error":"Scraper failed: '' @ json_escape m @ js ''"}'')
         \<and> 0x0D \<notin> set (js ''{"error":"Scraper failed: '' @ json_escape m @ js ''"}'')
         \<and> JSON_parse (js ''{"error":"Scraper failed: '' @ json_escape m @ js ''"}'')
             = Some (JObject [(js ''error'', JStr (js ''Scraper failed: '' @ m))])\<close>
proof -
  have "run p argv =
      (Exit 1, \<lparr>stdout = [], stderr = [ErrorReport (js ''Scraper failed: '' @ m)],
                calls = [RetrievalConfig (argv ! 2)]\<rparr>)"
    using run_caught [of argv p e] assms by simp
  moreover from this
  have "process_stderr (run p argv) = [Line (ErrorReport (js ''Scraper failed: '' @ m))]"
    by (simp add: process_stderr_simps)
  ultimately show ?thesis
    using ErrorReport_no_line_break [of "js ''Scraper failed: '' @ m"]
      ErrorReport_well_formed [of "js ''Scraper failed: '' @ m"]
    by (simp only: ErrorReport_is_stringify ErrorReport_failed fst_conv exit_status.simps
        simp_thms)
qed

theorem provider_failure_report_witness:
  \<open>run (stub_failing (JError (js ''Error'') (js ''network timeout'')))
       [js ''node'', js ''run_scraper.js'', js ''x''] =
     (Exit 1, \<lparr>stdout = [], stderr = [js ''{"error":"Scraper failed: network timeout"}''],
               calls = [RetrievalConfig (js ''x'')]\<rparr>)
   \<and> run (stub_failing (JError (js ''Error'') (js ''time"out'' @ [0x0A] @ js ''again'')))
       [js ''node'', js ''run_scraper.js'', js ''x''] =
     (Exit 1, \<lparr>stdout = [],
               stderr = [js ''{"error":"Scraper failed: time'' @ [0x5C, 0x22] @ js ''out''
                          @ [0x5C, 0x6E] @ js ''again"}''],
               calls = [RetrievalConfig (js ''x'')]\<rparr>)\<close>
  using provider_failure_report [of "[js ''node'', js ''run_scraper.js'', js ''x'']"
      "stub_failing (JError (js ''Error'') (js ''network timeout''))"
      "JError (js ''Error'') (js ''network timeout'')" "js ''network timeout''"]
    provider_failure_report [of "[js ''node'', js ''run_scraper.js'', js ''x'']"
      \<open>stub_failing (JError (js ''Error'') (js ''time"out'' @ [0x0A] @ js ''again''))\<close>
      \<open>JError (js ''Error'') (js ''time"out'' @ [0x0A] @ js ''again'')\<close>
      \<open>js ''time"out'' @ [0x0A] @ js ''again''\<close>]
  by (simp add: stub_failing_def js_def is_leading_surrogate_def is_trailing_surrogate_def)

text \<open>
  C3. When the search term is valid and the external module returns a ResultSet (an array
  of serializable values), the program writes \<^verbatim>\<open>JSON.stringify\<close> of it with an
  indentation of two spaces to standard output, as the only output there, writes nothing
  to standard error, and returns without calling \<^verbatim>\<open>process.exit\<close>: the exit status
  is 0. The text is JSON: read back it is the array of the JSON values of the articles,
  all of them and in their order. An empty ResultSet is written as \<^verbatim>\<open>[]\<close>; any other
  text opens with the bracket, a line feed and two spaces and closes with a line feed
  and the bracket.
\<close>

theorem success_output:
  assumes "2 < length argv" and "argv ! 2 \<noteq> []"
    and "p (RetrievalConfig (argv ! 2)) = Fulfilled (JArray articles)"
    and "list_all serializable articles"
  shows "\<exists>text. SerializeJSONProperty [0x20, 0x20] [] (JArray articles) = Inr (Some text)
           \<and> run p argv =
               (Normal (), \<lparr>stdout = [text], stderr = [], calls = [RetrievalConfig (argv ! 2)]\<rparr>)
           \<and> exit_status (fst (run p argv)) = Some 0
           \<and> process_stderr (run p argv) = []
           \<and> JSON_parse text = Some (JArray (image_elements articles))
           \<and> (articles = [] \<longrightarrow> text = js ''[]'')
           \<and> (articles \<noteq> [] \<longrightarrow>
                (\<exists>body. text = [0x5B, 0x0A, 0x20, 0x20] @ body @ [0x0A, 0x5D]))"
proof -
  from assms(4) have s: "serializable (JArray articles)" by simp
  have "list_all is_ws [0x20, 0x20]" by (simp add: is_ws_def)
  from JSON_parse_json_image [OF s _ this, of "JArray (image_elements articles)"]
  obtain t where t: "SerializeJSONProperty [0x20, 0x20] [] (JArray articles) = Inr (Some t)"
    and r: "JSON_parse t = Some (JArray (image_elements articles))"
    by auto
  from run_fulfilled [of argv p "JArray articles" "Some t"] assms(1,2,3) t
  have run: "run p argv =
      (Normal (), \<lparr>stdout = [t], stderr = [], calls = [RetrievalConfig (argv ! 2)]\<rparr>)"
    by (simp add: console_text_def)
  from t obtain parts where p: "SerializeJSONArray [0x20, 0x20] [0x20, 0x20] articles = Inr parts"
    and e: "t = enclose [0x20, 0x20] [] 0x5B 0x5D parts"
    by (auto split: sum.splits)
  have empty: "t = js ''[]''" if "articles = []"
    using that p e by (simp add: enclose_def js_def)
  have indented: "\<exists>body. t = [0x5B, 0x0A, 0x20, 0x20] @ body @ [0x0A, 0x5D]" if "articles \<noteq> []"
  proof -
    from that p have "parts \<noteq> []"
      by (cases articles) (auto split: sum.splits)
    from enclose_indented [OF this] e show ?thesis by simp
  qed
  from t run r empty indented show ?thesis
    by (intro exI [of _ t]) (simp add: process_stderr_simps)
qed

theorem success_output_witness:
  \<open>run (stub_returning
          (JArray [JObject [(js ''title'', JStr (js ''A "q"'')), (js ''rank'', JNum 1),
                            (js ''image'', JUndefined)],
                   JObject [(js ''title'', JStr (js ''B'')),
                            (js ''tags'', JArray [JStr (js ''x''), JStr (js ''y'')]),
                            (js ''extra'', JObject [])]]))
       [js ''node'', js ''run_scraper.js'', js ''budget 2024''] =
     (Normal (),
      \<lparr>stdout =
         [js ''['' @ [0x0A]
          @ js ''  {'' @ [0x0A]
          @ js ''    "title": "A '' @ [0x5C] @ js ''"q'' @ [0x5C] @ js ''"",'' @ [0x0A]
          @ js ''    "rank": 1'' @ [0x0A]
          @ js ''  },'' @ [0x0A]
          @ js ''  {'' @ [0x0A]
          @ js ''    "title": "B",'' @ [0x0A]
          @ js ''    "tags": ['' @ [0x0A]
          @ js ''      "x",'' @ [0x0A]
          @ js ''      "y"'' @ [0x0A]
          @ js ''    ],'' @ [0x0A]
          @ js ''    "extra": {}'' @ [0x0A]
          @ js ''  }'' @ [0x0A]
          @ js '']''],
       stderr = [], calls = [RetrievalConfig (js ''budget 2024'')]\<rparr>)\<close>
proof -
  let ?argv = "[js ''node'', js ''run_scraper.js'', js ''budget 2024'']"
  let ?articles = \<open>[JObject [(js ''title'', JStr (js ''A "q"'')), (js ''rank'', JNum 1),
                            (js ''image'', JUndefined)],
                   JObject [(js ''title'', JStr (js ''B'')),
                            (js ''tags'', JArray [JStr (js ''x''), JStr (js ''y'')]),
                            (js ''extra'', JObject [])]]\<close>
  have h: "2 < length ?argv" "?argv ! 2 \<noteq> []"
    "stub_returning (JArray ?articles) (RetrievalConfig (?argv ! 2)) = Fulfilled (JArray ?articles)"
    "list_all serializable ?articles"
    by (simp_all add: stub_returning_def js_def)
  from success_output [of ?argv "stub_returning (JArray ?articles)" ?articles, OF h]
  obtain t where t: "SerializeJSONProperty [0x20, 0x20] [] (JArray ?articles) = Inr (Some t)"
    and r: "run (stub_returning (JArray ?articles)) ?argv =
      (Normal (), \<lparr>stdout = [t], stderr = [], calls = [RetrievalConfig (?argv ! 2)]\<rparr>)"
    by (elim exE conjE)
  have one: "int_toString 1 = [0x31]"
    by (simp add: int_toString_def digits.simps)
  from t have \<open>t = js ''['' @ [0x0A]
          @ js ''  {'' @ [0x0A]
          @ js ''    "title": "A '' @ [0x5C] @ js ''"q'' @ [0x5C] @ js ''"",'' @ [0x0A]
          @ js ''    "rank": 1'' @ [0x0A]
          @ js ''  },'' @ [0x0A]
          @ js ''  {'' @ [0x0A]
          @ js ''    "title": "B",'' @ [0x0A]
          @ js ''    "tags": ['' @ [0x0A]
          @ js ''      "x",'' @ [0x0A]
          @ js ''      "y"'' @ [0x0A]
          @ js ''    ],'' @ [0x0A]
          @ js ''    "extra": {}'' @ [0x0A]
          @ js ''  }'' @ [0x0A]
          @ js '']''\<close>
    by (simp add: one enclose_def QuoteJSONString_def js_def is_leading_surrogate_def
        is_trailing_surrogate_def)
  with r show ?thesis by simp
qed

text \<open>
  C4. For every valid search term the options given to the external module are the search
  term itself and the same fixed values: readable URLs, the last 7 days, the two flags
  that disable the browser sandbox, errors only in the log, 15 results at most. Two runs
  with different terms give options that differ in the search term only.
\<close>

theorem fixed_configuration:
  assumes "2 < length argv" and "argv ! 2 \<noteq> []"
  shows "calls (snd (run p argv)) =
           [\<lparr>searchTerm = JStr (argv ! 2),
             prettyURLs = True,
             timeframe = js ''7d'',
             puppeteerArgs = [js ''--no-sandbox'', js ''--disable-setuid-sandbox''],
             logLevel = js ''error'',
             limit = 15\<rparr>]
         \<and> (2 < length argv' \<and> argv' ! 2 \<noteq> [] \<longrightarrow>
              map (\<lambda>c. c\<lparr>searchTerm := t\<rparr>) (calls (snd (run p argv)))
              = map (\<lambda>c. c\<lparr>searchTerm := t\<rparr>) (calls (snd (run p' argv'))))"
  using run_calls_valid [OF assms, of p] run_calls_valid [of argv' p']
  by (auto simp add: RetrievalConfig_def)

theorem fixed_configuration_witness:
  "calls (snd (run stub_hanging [js ''node'', js ''run_scraper.js'', js ''nifty''])) =
     [\<lparr>searchTerm = JStr (js ''nifty''),
       prettyURLs = True,
       timeframe = js ''7d'',
       puppeteerArgs = [js ''--no-sandbox'', js ''--disable-setuid-sandbox''],
       logLevel = js ''error'',
       limit = 15\<rparr>]"
  using fixed_configuration [of "[js ''node'', js ''run_scraper.js'', js ''nifty'']" stub_hanging]
  by (simp add: js_def)

text \<open>
  C5, as the code has it. The program hands the value of the external module to
  \<^verbatim>\<open>JSON.stringify\<close> as it is and writes the text as it is: it filters, sorts and changes
  nothing. For a ResultSet of JSON values (\<^verbatim>\<open>null\<close>, booleans, numbers, strings, arrays
  and plain objects of such) the text on standard output, read back as JSON, is that
  value: the same elements and the same members with the same keys, in the same order.
  For any other ResultSet that can be serialized the text is the JSON that
  \<^verbatim>\<open>JSON.stringify\<close> gives it (a member that is \<^verbatim>\<open>undefined\<close> or a Symbol left out, such
  an element written as \<^verbatim>\<open>null\<close>, an error instance written as the empty object), and
  that is a different value.
\<close>

theorem pass_through:
  assumes "2 < length argv" and "argv ! 2 \<noteq> []"
    and "p (RetrievalConfig (argv ! 2)) = Fulfilled (JArray articles)"
  shows "(list_all json_value articles \<longrightarrow>
          (\<exists>text. SerializeJSONProperty [0x20, 0x20] [] (JArray articles) = Inr (Some text)
             \<and> run p argv =
                 (Normal (), \<lparr>stdout = [text], stderr = [],
                              calls = [RetrievalConfig (argv ! 2)]\<rparr>)
             \<and> JSON_parse text = Some (JArray articles)))
       \<and> (list_all serializable articles \<longrightarrow>
          (\<exists>text. SerializeJSONProperty [0x20, 0x20] [] (JArray articles) = Inr (Some text)
             \<and> run p argv =
                 (Normal (), \<lparr>stdout = [text], stderr = [],
                              calls = [RetrievalConfig (argv ! 2)]\<rparr>)
             \<and> JSON_parse text = Some (JArray (image_elements articles))
             \<and> (JSON_parse text = Some (JArray articles) \<longrightarrow> list_all json_value articles)))"
proof -
  have general: "\<exists>text. SerializeJSONProperty [0x20, 0x20] [] (JArray articles) = Inr (Some text)
             \<and> run p argv =
                 (Normal (), \<lparr>stdout = [text], stderr = [],
                              calls = [RetrievalConfig (argv ! 2)]\<rparr>)
             \<and> JSON_parse text = Some (JArray (image_elements articles))
             \<and> (JSON_parse text = Some (JArray articles) \<longrightarrow> list_all json_value articles)"
    if s: "list_all serializable articles"
  proof -
    from s have "serializable (JArray articles)" by simp
    moreover have "list_all is_ws [0x20, 0x20]" by (simp add: is_ws_def)
    ultimately obtain t
      where t: "SerializeJSONProperty [0x20, 0x20] [] (JArray articles) = Inr (Some t)"
        and r: "JSON_parse t = Some (JArray (image_elements articles))"
      using JSON_parse_json_image [of "JArray articles" "JArray (image_elements articles)" "[0x20, 0x20]"]
      by auto
    from run_fulfilled [of argv p "JArray articles" "Some t"] assms t
    have run: "run p argv =
        (Normal (), \<lparr>stdout = [t], stderr = [], calls = [RetrievalConfig (argv ! 2)]\<rparr>)"
      by (simp add: console_text_def)
    have "list_all json_value articles" if "JSON_parse t = Some (JArray articles)"
    proof -
      from that r have "image_elements articles = articles" by simp
      with json_image_json_value(2) [of articles] show ?thesis by simp
    qed
    with t run r show ?thesis by blast
  qed
  have json: "\<exists>text. SerializeJSONProperty [0x20, 0x20] [] (JArray articles) = Inr (Some text)
             \<and> run p argv =
                 (Normal (), \<lparr>stdout = [text], stderr = [],
                              calls = [RetrievalConfig (argv ! 2)]\<rparr>)
             \<and> JSON_parse text = Some (JArray articles)"
    if j: "list_all json_value articles"
  proof -
    from j have "list_all serializable articles" by (rule json_value_serializable(2))
    from general [OF this] j show ?thesis
      by (auto simp add: json_image_of_json_value(2))
  qed
  from general json show ?thesis by blast
qed

theorem pass_through_witness:
  \<open>\<exists>text. run (stub_returning (JArray [JObject [(js ''title'', JStr (js ''B"1'')), (js ''link'', JNull)],
                                        JObject [(js ''title'', JStr (js ''A'')), (js ''rank'', JNum 2)]]))
              [js ''node'', js ''run_scraper.js'', js ''budget 2024'']
            = (Normal (), \<lparr>stdout = [text], stderr = [],
                           calls = [RetrievalConfig (js ''budget 2024'')]\<rparr>)
          \<and> JSON_parse text
              = Some (JArray [JObject [(js ''title'', JStr (js ''B"1'')), (js ''link'', JNull)],
                              JObject [(js ''title'', JStr (js ''A'')), (js ''rank'', JNum 2)]])\<close>
proof -
  let ?argv = "[js ''node'', js ''run_scraper.js'', js ''budget 2024'']"
  let ?articles = \<open>[JObject [(js ''title'', JStr (js ''B"1'')), (js ''link'', JNull)],
                    JObject [(js ''title'', JStr (js ''A'')), (js ''rank'', JNum 2)]]\<close>
  have h: "2 < length ?argv" "?argv ! 2 \<noteq> []"
    "stub_returning (JArray ?articles) (RetrievalConfig (?argv ! 2)) = Fulfilled (JArray ?articles)"
    by (simp_all add: stub_returning_def js_def)
  have j: "list_all json_value ?articles" by simp
  from pass_through [of ?argv "stub_returning (JArray ?articles)" ?articles, OF h,
      THEN conjunct1, THEN mp, OF j]
  obtain t where "run (stub_returning (JArray ?articles)) ?argv =
      (Normal (), \<lparr>stdout = [t], stderr = [], calls = [RetrievalConfig (?argv ! 2)]\<rparr>)"
    and "JSON_parse t = Some (JArray ?articles)"
    by (elim exE conjE)
  then show ?thesis by (intro exI [of _ t]) simp
qed

theorem pass_through_counterexample:
  \<open>run (stub_returning (JArray [JObject [(js ''title'', JStr (js ''a'')), (js ''image'', JUndefined)]]))
       [js ''node'', js ''run_scraper.js'', js ''x'']
     = (Normal (),
        \<lparr>stdout = [js ''['' @ [0x0A] @ js ''  {'' @ [0x0A] @ js ''    "title": "a"'' @ [0x0A]
                    @ js ''  }'' @ [0x0A] @ js '']''],
         stderr = [], calls = [RetrievalConfig (js ''x'')]\<rparr>)
   \<and> JSON_parse (js ''['' @ [0x0A] @ js ''  {'' @ [0x0A] @ js ''    "title": "a"'' @ [0x0A]
                    @ js ''  }'' @ [0x0A] @ js '']'')
     = Some (JArray [JObject [(js ''title'', JStr (js ''a''))]])\<close>
proof -
  let ?argv = "[js ''node'', js ''run_scraper.js'', js ''x'']"
  let ?v = "JArray [JObject [(js ''title'', JStr (js ''a'')), (js ''image'', JUndefined)]]"
  let ?t = \<open>js ''['' @ [0x0A] @ js ''  {'' @ [0x0A] @ js ''    "title": "a"'' @ [0x0A]
                    @ js ''  }'' @ [0x0A] @ js '']''\<close>
  have valid: "2 < length ?argv" "?argv ! 2 \<noteq> []"
    by (simp_all add: js_def)
  have t: "SerializeJSONProperty [0x20, 0x20] [] ?v = Inr (Some ?t)"
    by (simp add: enclose_def QuoteJSONString_def js_def is_leading_surrogate_def
        is_trailing_surrogate_def)
  have run: "run (stub_returning ?v) ?argv =
      (Normal (), \<lparr>stdout = [?t], stderr = [], calls = [RetrievalConfig (js ''x'')]\<rparr>)"
    using run_fulfilled [of ?argv "stub_returning ?v" ?v "Some ?t", OF valid _ t]
    by (simp add: stub_returning_def console_text_def)
  have "serializable ?v" "json_image ?v = Some (JArray [JObject [(js ''title'', JStr (js ''a''))]])"
    "list_all is_ws [0x20, 0x20]"
    by (simp_all add: is_ws_def)
  from JSON_parse_json_image [OF this] t
  have "JSON_parse ?t = Some (JArray [JObject [(js ''title'', JStr (js ''a''))]])"
    by simp
  with run show ?thesis by simp
qed

text \<open>
  C6. In every run the external module is called once when a valid search term is given,
  whether its promise is fulfilled, rejected or never settled, and not at all when the
  search term is absent or empty; it is never called twice.
\<close>

theorem single_invocation:
  "length (calls (snd (run p argv))) = (if 2 < length argv \<and> argv ! 2 \<noteq> [] then 1 else 0)"
proof (cases "2 < length argv \<and> argv ! 2 \<noteq> []")
  case True
  then show ?thesis using run_calls_valid [of argv p] by simp
next
  case False
  then have "length argv \<le> 2 \<or> argv ! 2 = []" by auto
  from run_missing [OF this, of p] False show ?thesis by simp
qed

theorem single_invocation_witness:
  "length (calls (snd (run (stub_failing JNull) [js ''node'', js ''run_scraper.js'', js ''x'']))) = 1
   \<and> length (calls (snd (run (stub_returning (JArray [])) [js ''node'', js ''run_scraper.js'', js ''x'']))) = 1
   \<and> length (calls (snd (run stub_hanging [js ''node'', js ''run_scraper.js'', js ''x'']))) = 1
   \<and> length (calls (snd (run stub_hanging [js ''node'', js ''run_scraper.js'']))) = 0"
  using single_invocation [of "stub_failing JNull" "[js ''node'', js ''run_scraper.js'', js ''x'']"]
    single_invocation [of "stub_returning (JArray [])" "[js ''node'', js ''run_scraper.js'', js ''x'']"]
    single_invocation [of stub_hanging "[js ''node'', js ''run_scraper.js'', js ''x'']"]
    single_invocation [of stub_hanging "[js ''node'', js ''run_scraper.js'']"]
  by (simp add: js_def)

text \<open>
  C7, as the code has it. In every run the two streams exclude each other and standard
  output is all or nothing. When the value the external module returns is serialized,
  \<^verbatim>\<open>main\<close> returns, the whole text of \<^verbatim>\<open>JSON.stringify\<close> is the only output and standard
  error is empty. When the search term is missing, or when the error caught is neither
  \<^verbatim>\<open>null\<close> nor \<^verbatim>\<open>undefined\<close> and its message can be converted to a string, the program
  ends in \<^verbatim>\<open>process.exit(1)\<close>, one ErrorReport line (a JSON object with the one member
  \<^verbatim>\<open>error\<close>, without line break) is the only output and standard output is empty.
  Standard output is written in no other run: there is never a part of a ResultSet on it.
\<close>

theorem exclusive_output:
  "(stdout (snd (run p argv)) = [] \<or> process_stderr (run p argv) = [])
   \<and> (2 < length argv \<and> argv ! 2 \<noteq> []
        \<and> p (RetrievalConfig (argv ! 2)) = Fulfilled v
        \<and> SerializeJSONProperty [0x20, 0x20] [] v = Inr r \<longrightarrow>
        run p argv =
          (Normal (), \<lparr>stdout = [console_text r], stderr = [],
                       calls = [RetrievalConfig (argv ! 2)]\<rparr>)
        \<and> process_stderr (run p argv) = [])
   \<and> (length argv \<le> 2 \<or> argv ! 2 = []
        \<or> (p (RetrievalConfig (argv ! 2)) = Rejected e
            \<or> (\<exists>u. p (RetrievalConfig (argv ! 2)) = Fulfilled u
                   \<and> SerializeJSONProperty [0x20, 0x20] [] u = Inl e))
           \<and> get_message e = Inr m \<and> ToString m = Inr rendering \<longrightarrow>
        (\<exists>message. fst (run p argv) = Exit 1
           \<and> process_stderr (run p argv) = [Line (ErrorReport message)]
           \<and> 0x0A \<notin> set (ErrorReport message)
           \<and> 0x0D \<notin> set (ErrorReport message)
           \<and> JSON_parse (ErrorReport message) = Some (JObject [(js ''error'', JStr message)])
           \<and> stdout (snd (run p argv)) = []))
   \<and> (stdout (snd (run p argv)) \<noteq> [] \<longrightarrow>
        (\<exists>v r. p (RetrievalConfig (argv ! 2)) = Fulfilled v
           \<and> SerializeJSONProperty [0x20, 0x20] [] v = Inr r
           \<and> run p argv =
               (Normal (), \<lparr>stdout = [console_text r], stderr = [],
                            calls = [RetrievalConfig (argv ! 2)]\<rparr>)))"
proof -
  have exclusive: "stdout (snd (run p argv)) = [] \<or> process_stderr (run p argv) = []"
    by (cases rule: run_cases [where argv = argv and p = p]) (simp_all add: process_stderr_simps)
  have success: "run p argv =
          (Normal (), \<lparr>stdout = [console_text r], stderr = [],
                       calls = [RetrievalConfig (argv ! 2)]\<rparr>)
        \<and> process_stderr (run p argv) = []"
    if "2 < length argv \<and> argv ! 2 \<noteq> []
        \<and> p (RetrievalConfig (argv ! 2)) = Fulfilled v
        \<and> SerializeJSONProperty [0x20, 0x20] [] v = Inr r"
    using run_fulfilled [of argv p v r] that by (simp add: process_stderr_simps)
  have report: "\<exists>message. fst (run p argv) = Exit 1
           \<and> process_stderr (run p argv) = [Line (ErrorReport message)]
           \<and> 0x0A \<notin> set (ErrorReport message)
           \<and> 0x0D \<notin> set (ErrorReport message)
           \<and> JSON_parse (ErrorReport message) = Some (JObject [(js ''error'', JStr message)])
           \<and> stdout (snd (run p argv)) = []"
    if run: "run p argv = (Exit 1, \<lparr>stdout = [], stderr = [ErrorReport message], calls = cs\<rparr>)"
    for message cs
    using ErrorReport_no_line_break [of message] ErrorReport_well_formed [of message]
    by (intro exI [of _ message]) (simp add: run process_stderr_simps)
  have failure: "\<exists>message. fst (run p argv) = Exit 1
           \<and> process_stderr (run p argv) = [Line (ErrorReport message)]
           \<and> 0x0A \<notin> set (ErrorReport message)
           \<and> 0x0D \<notin> set (ErrorReport message)
           \<and> JSON_parse (ErrorReport message) = Some (JObject [(js ''error'', JStr message)])
           \<and> stdout (snd (run p argv)) = []"
    if h: "length argv \<le> 2 \<or> argv ! 2 = []
        \<or> (p (RetrievalConfig (argv ! 2)) = Rejected e
            \<or> (\<exists>u. p (RetrievalConfig (argv ! 2)) = Fulfilled u
                   \<and> SerializeJSONProperty [0x20, 0x20] [] u = Inl e))
           \<and> get_message e = Inr m \<and> ToString m = Inr rendering"
  proof (cases "length argv \<le> 2 \<or> argv ! 2 = []")
    case True
    from run_missing [OF this, of p] show ?thesis by (rule report)
  next
    case False
    then have valid: "2 < length argv" "argv ! 2 \<noteq> []" by auto
    from False h have c: "p (RetrievalConfig (argv ! 2)) = Rejected e
            \<or> (\<exists>u. p (RetrievalConfig (argv ! 2)) = Fulfilled u
                   \<and> SerializeJSONProperty [0x20, 0x20] [] u = Inl e)"
      and m: "get_message e = Inr m" and r: "ToString m = Inr rendering"
      by blast+
    from run_caught [of argv p e, OF valid c] m r
    have "run p argv =
       (Exit 1, \<lparr>stdout = [], stderr = [ErrorReport (js ''Scraper failed: '' @ rendering)],
                 calls = [RetrievalConfig (argv ! 2)]\<rparr>)"
      by simp
    then show ?thesis by (rule report)
  qed
  have whole: "\<exists>v r. p (RetrievalConfig (argv ! 2)) = Fulfilled v
           \<and> SerializeJSONProperty [0x20, 0x20] [] v = Inr r
           \<and> run p argv =
               (Normal (), \<lparr>stdout = [console_text r], stderr = [],
                            calls = [RetrievalConfig (argv ! 2)]\<rparr>)"
    if out: "stdout (snd (run p argv)) \<noteq> []"
  proof (cases rule: run_cases [where argv = argv and p = p])
    case (success v' r')
    then show ?thesis by blast
  qed (use out in simp_all)
  from exclusive success failure whole show ?thesis by blast
qed

theorem exclusive_output_witness:
  \<open>run (stub_failing (JError (js ''Error'') (js ''net''))) [js ''node'', js ''run_scraper.js'', js ''x'']
     = (Exit 1, \<lparr>stdout = [], stderr = [js ''{"error":"Scraper failed: net"}''],
                 calls = [RetrievalConfig (js ''x'')]\<rparr>)
   \<and> process_stderr (run (stub_failing (JError (js ''Error'') (js ''net'')))
        [js ''node'', js ''run_scraper.js'', js ''x''])
     = [Line (js ''{"error":"Scraper failed: net"}'')]
   \<and> run (stub_returning (JArray [JNull])) [js ''node'', js ''run_scraper.js'', js ''x'']
     = (Normal (), \<lparr>stdout = [[0x5B, 0x0A] @ js ''  null'' @ [0x0A] @ js '']''], stderr = [],
                   calls = [RetrievalConfig (js ''x'')]\<rparr>)
   \<and> process_stderr (run (stub_returning (JArray [JNull])) [js ''node'', js ''run_scraper.js'', js ''x''])
     = []\<close>
proof -
  let ?argv = "[js ''node'', js ''run_scraper.js'', js ''x'']"
  let ?f = "stub_failing (JError (js ''Error'') (js ''net''))"
  let ?g = "stub_returning (JArray [JNull])"
  have valid: "2 < length ?argv" "?argv ! 2 \<noteq> []"
    by (simp_all add: js_def)
  have line: \<open>ErrorReport (js ''Scraper failed: net'') = js ''{"error":"Scraper failed: net"}''\<close>
    by (simp add: ErrorReport_def js_def is_leading_surrogate_def is_trailing_surrogate_def)
  have f: \<open>run ?f ?argv
     = (Exit 1, \<lparr>stdout = [], stderr = [js ''{"error":"Scraper failed: net"}''],
                 calls = [RetrievalConfig (js ''x'')]\<rparr>)\<close>
    using run_caught [of ?argv ?f "JError (js ''Error'') (js ''net'')"] valid
    unfolding line [symmetric]
    by (simp add: stub_failing_def) (simp add: js_def)
  have ser: "SerializeJSONProperty [0x20, 0x20] [] (JArray [JNull])
      = Inr (Some ([0x5B, 0x0A] @ js ''  null'' @ [0x0A] @ js '']''))"
    by (simp add: enclose_def js_def)
  have "?argv ! 2 = js ''x''" by simp
  have hf: "length ?argv \<le> 2 \<or> ?argv ! 2 = []
        \<or> (?f (RetrievalConfig (?argv ! 2)) = Rejected (JError (js ''Error'') (js ''net''))
            \<or> (\<exists>u. ?f (RetrievalConfig (?argv ! 2)) = Fulfilled u
                   \<and> SerializeJSONProperty [0x20, 0x20] [] u = Inl (JError (js ''Error'') (js ''net''))))
           \<and> get_message (JError (js ''Error'') (js ''net'')) = Inr (JStr (js ''net''))
           \<and> ToString (JStr (js ''net'')) = Inr (js ''net'')"
    by (simp add: stub_failing_def)
  from exclusive_output [of ?f ?argv _ _ "JError (js ''Error'') (js ''net'')" "JStr (js ''net'')" "js ''net''",
      THEN conjunct2, THEN conjunct2, THEN conjunct1, THEN mp, OF hf]
  obtain message where "process_stderr (run ?f ?argv) = [Line (ErrorReport message)]"
    by (elim exE conjE)
  with f have pf: \<open>process_stderr (run ?f ?argv) = [Line (js ''{"error":"Scraper failed: net"}'')]\<close>
    by (simp add: process_stderr_simps)
  have hg: "2 < length ?argv \<and> ?argv ! 2 \<noteq> []
        \<and> ?g (RetrievalConfig (?argv ! 2)) = Fulfilled (JArray [JNull])
        \<and> SerializeJSONProperty [0x20, 0x20] [] (JArray [JNull])
            = Inr (Some ([0x5B, 0x0A] @ js ''  null'' @ [0x0A] @ js '']''))"
    using valid ser by (simp add: stub_returning_def)
  from exclusive_output [of ?g ?argv "JArray [JNull]" "Some ([0x5B, 0x0A] @ js ''  null'' @ [0x0A] @ js '']'')",
      THEN conjunct2, THEN conjunct1, THEN mp, OF hg]
  have g: "run ?g ?argv
     = (Normal (), \<lparr>stdout = [[0x5B, 0x0A] @ js ''  null'' @ [0x0A] @ js '']''], stderr = [],
                   calls = [RetrievalConfig (js ''x'')]\<rparr>)"
    and pg: "process_stderr (run ?g ?argv) = []"
    by (simp_all add: console_text_def process_stderr_simps)
  from f pf g pg show ?thesis by (intro conjI)
qed

theorem exclusive_output_counterexample:
  \<open>run (stub_failing JUndefined) [js ''node'', js ''run_scraper.js'', js ''x'']
     = (Throw (TypeError (js ''Cannot read properties of undefined (reading 'message')'')),
        \<lparr>stdout = [], stderr = [], calls = [RetrievalConfig (js ''x'')]\<rparr>)
   \<and> process_stderr (run (stub_failing JUndefined) [js ''node'', js ''run_scraper.js'', js ''x''])
     = [Uncaught (TypeError (js ''Cannot read properties of undefined (reading 'message')''))]
   \<and> exit_status (fst (run (stub_failing JUndefined) [js ''node'', js ''run_scraper.js'', js ''x'']))
     = Some 1\<close>
proof -
  let ?argv = "[js ''node'', js ''run_scraper.js'', js ''x'']"
  have valid: "2 < length ?argv" "?argv ! 2 \<noteq> []"
    by (simp_all add: js_def)
  have "run (stub_failing JUndefined) ?argv
     = (Throw (TypeError (js ''Cannot read properties of undefined (reading 'message')'')),
        \<lparr>stdout = [], stderr = [], calls = [RetrievalConfig (js ''x'')]\<rparr>)"
    using run_caught [of ?argv "stub_failing JUndefined" JUndefined] valid
    by (simp add: stub_failing_def)
  then show ?thesis by (simp add: process_stderr_simps)
qed

text \<open>
  C8, as the code has it. When the external module fails with a value other than
  \<^verbatim>\<open>null\<close> and \<^verbatim>\<open>undefined\<close> whose \<^verbatim>\<open>message\<close> is not a string but can be converted
  to one, the program ends with exit status 1 and writes one line to standard error, the
  ErrorReport whose message is \<^verbatim>\<open>Scraper failed: \<close> followed by that conversion; the line
  holds no line break, it reads back as the ErrorReport object, and it is
  \<^verbatim>\<open>{"error":"Scraper failed: undefined"}\<close> when the value has no \<^verbatim>\<open>message\<close> at all.
\<close>

theorem failure_without_message:
  assumes "2 < length argv" and "argv ! 2 \<noteq> []"
    and "p (RetrievalConfig (argv ! 2)) = Rejected e"
    and "e \<noteq> JNull" and "e \<noteq> JUndefined"
    and "get_message e = Inr m" and "\<forall>s. m \<noteq> JStr s"
    and "ToString m = Inr rendering"
  shows \<open>run p argv =
           (Exit 1, \<lparr>stdout = [],
                     stderr = [js ''{"error":"Scraper failed: '' @ json_escape rendering @ js ''"}''],
                     calls = [RetrievalConfig (argv ! 2)]\<rparr>)
         \<and> exit_status (fst (run p argv)) = Some 1
         \<and> 0x0A \<notin> set (js ''{"error":"Scraper failed: '' @ json_escape rendering @ js ''"}'')
         \<and> SerializeJSONProperty [] [] (JObject [(js ''error'', JStr (js ''Scraper failed: '' @ rendering))])
             = Inr (Some (js ''{"error":"Scraper failed: '' @ json_escape rendering @ js ''"}''))
         \<and> JSON_parse (js ''{"error":"Scraper failed: '' @ json_escape rendering @ js ''"}'')
             = Some (JObject [(js ''error'', JStr (js ''Scraper failed: '' @ rendering))])
         \<and> (m = JUndefined \<longrightarrow>
              stderr (snd (run p argv)) = [js ''{"error":"Scraper failed: undefined"}''])
         \<and> process_stderr (run p argv)
             = [Line (js ''{"error":"Scraper failed: '' @ json_escape rendering @ js ''"}'')]
         \<and> 0x0D \<notin> set (js ''{"error":"Scraper failed: '' @ json_escape rendering @ js ''"}'')\<close>
proof -
  note m = assms(6) and r = assms(8)
  have run: "run p argv =
      (Exit 1, \<lparr>stdout = [], stderr = [ErrorReport (js ''Scraper failed: '' @ rendering)],
                calls = [RetrievalConfig (argv ! 2)]\<rparr>)"
    using run_caught [of argv p e] assms(1,2,3) m r by simp
  have u: \<open>js ''{"error":"Scraper failed: '' @ json_escape (js ''undefined'') @ js ''"}''
      = js ''{"error":"Scraper failed: undefined"}''\<close>
    by (simp add: js_def is_leading_surrogate_def is_trailing_surrogate_def)
  have "m = JUndefined \<longrightarrow> rendering = js ''undefined''"
    using r by auto
  with run ErrorReport_no_line_break [of "js ''Scraper failed: '' @ rendering"] u
    ErrorReport_well_formed [of "js ''Scraper failed: '' @ rendering"]
  show ?thesis
    by (auto simp only: ErrorReport_is_stringify ErrorReport_failed fst_conv snd_conv
        exit_status.simps simp_thms world.simps process_stderr_simps list.map)
qed

theorem failure_without_message_witness:
  \<open>run (stub_failing (JStr (js ''boom''))) [js ''node'', js ''run_scraper.js'', js ''x'']
     = (Exit 1, \<lparr>stdout = [], stderr = [js ''{"error":"Scraper failed: undefined"}''],
                 calls = [RetrievalConfig (js ''x'')]\<rparr>)
   \<and> run (stub_failing (JObject [(js ''message'', JNum 404)])) [js ''node'', js ''run_scraper.js'', js ''x'']
     = (Exit 1, \<lparr>stdout = [], stderr = [js ''{"error":"Scraper failed: 404"}''],
                 calls = [RetrievalConfig (js ''x'')]\<rparr>)\<close>
proof -
  let ?argv = "[js ''node'', js ''run_scraper.js'', js ''x'']"
  have n: "int_toString 404 = js ''404''"
    by (simp add: int_toString_def digits.simps js_def)
  have s: "sint (404 :: 54 word) = 404" by simp
  have a: \<open>run (stub_failing (JStr (js ''boom''))) ?argv
     = (Exit 1, \<lparr>stdout = [], stderr = [js ''{"error":"Scraper failed: undefined"}''],
                 calls = [RetrievalConfig (js ''x'')]\<rparr>)\<close>
    using failure_without_message [of ?argv
      "stub_failing (JStr (js ''boom''))" "JStr (js ''boom'')" JUndefined "js ''undefined''"]
    by (simp add: stub_failing_def) (simp add: js_def is_leading_surrogate_def is_trailing_surrogate_def)
  have b: \<open>run (stub_failing (JObject [(js ''message'', JNum 404)])) ?argv
     = (Exit 1, \<lparr>stdout = [], stderr = [js ''{"error":"Scraper failed: 404"}''],
                 calls = [RetrievalConfig (js ''x'')]\<rparr>)\<close>
    using failure_without_message [of ?argv
      "stub_failing (JObject [(js ''message'', JNum 404)])" "JObject [(js ''message'', JNum 404)]"
      "JNum 404" "js ''404''"]
    by (simp add: stub_failing_def s n) (simp add: js_def is_leading_surrogate_def is_trailing_surrogate_def)
  from a b show ?thesis by (intro conjI)
qed

theorem failure_without_message_counterexample:
  \<open>run (stub_failing JNull) [js ''node'', js ''run_scraper.js'', js ''x'']
     = (Throw (TypeError (js ''Cannot read properties of null (reading 'message')'')),
        \<lparr>stdout = [], stderr = [], calls = [RetrievalConfig (js ''x'')]\<rparr>)
   \<and> run (stub_failing (JObject [(js ''message'', JSymbol)])) [js ''node'', js ''run_scraper.js'', js ''x'']
     = (Throw (TypeError (js ''Cannot convert a Symbol value to a string'')),
        \<lparr>stdout = [], stderr = [], calls = [RetrievalConfig (js ''x'')]\<rparr>)
   \<and> process_stderr (run (stub_failing JNull) [js ''node'', js ''run_scraper.js'', js ''x''])
     = [Uncaught (TypeError (js ''Cannot read properties of null (reading 'message')''))]
   \<and> process_stderr (run (stub_failing (JObject [(js ''message'', JSymbol)]))
        [js ''node'', js ''run_scraper.js'', js ''x''])
     = [Uncaught (TypeError (js ''Cannot convert a Symbol value to a string''))]\<close>
proof -
  let ?argv = "[js ''node'', js ''run_scraper.js'', js ''x'']"
  have valid: "2 < length ?argv" "?argv ! 2 \<noteq> []"
    by (simp_all add: js_def)
  have a: "run (stub_failing JNull) ?argv
     = (Throw (TypeError (js ''Cannot read properties of null (reading 'message')'')),
        \<lparr>stdout = [], stderr = [], calls = [RetrievalConfig (js ''x'')]\<rparr>)"
    using run_caught [of ?argv "stub_failing JNull" JNull] valid
    by (simp add: stub_failing_def)
  have b: "run (stub_failing (JObject [(js ''message'', JSymbol)])) ?argv
     = (Throw (TypeError (js ''Cannot convert a Symbol value to a string'')),
        \<lparr>stdout = [], stderr = [], calls = [RetrievalConfig (js ''x'')]\<rparr>)"
    using run_caught [of ?argv "stub_failing (JObject [(js ''message'', JSymbol)])"
        "JObject [(js ''message'', JSymbol)]"] valid
    by (simp add: stub_failing_def)
  from a b show ?thesis by (simp add: process_stderr_simps)
qed

text \<open>
  C9, as the code has it. \<^verbatim>\<open>JSON.stringify\<close> of the value the external module returned
  is inside the \<^verbatim>\<open>try\<close> block: when it throws, whatever it throws, the run is the run in
  which the external module fails with the thrown value, and nothing is written to
  standard output. When the thrown value is neither \<^verbatim>\<open>null\<close> nor \<^verbatim>\<open>undefined\<close> and its
  message can be converted to a string, that is one \<^verbatim>\<open>Scraper failed\<close> line with the
  message on standard error and exit status 1. A run with exit status 0 in which the
  promise of the external module has settled has serialized the whole value and written
  the whole text to standard output.
\<close>

theorem serialization_failure:
  \<open>(2 < length argv \<and> argv ! 2 \<noteq> []
      \<and> p (RetrievalConfig (argv ! 2)) = Fulfilled v
      \<and> SerializeJSONProperty [0x20, 0x20] [] v = Inl e
    \<longrightarrow> run p argv = run (stub_failing e) argv
        \<and> stdout (snd (run p argv)) = []
        \<and> (get_message e = Inr m \<and> ToString m = Inr rendering \<longrightarrow>
             run p argv =
               (Exit 1, \<lparr>stdout = [],
                         stderr = [js ''{"error":"Scraper failed: '' @ json_escape rendering @ js ''"}''],
                         calls = [RetrievalConfig (argv ! 2)]\<rparr>)
             \<and> exit_status (fst (run p argv)) = Some 1
             \<and> process_stderr (run p argv)
                 = [Line (js ''{"error":"Scraper failed: '' @ json_escape rendering @ js ''"}'')]
             \<and> JSON_parse (js ''{"error":"Scraper failed: '' @ json_escape rendering @ js ''"}'')
                 = Some (JObject [(js ''error'', JStr (js ''Scraper failed: '' @ rendering))])))
   \<and> (exit_status (fst (run p argv)) = Some 0
      \<and> p (RetrievalConfig (argv ! 2)) \<noteq> Unsettled Loop_empty
    \<longrightarrow> (\<exists>w r. p (RetrievalConfig (argv ! 2)) = Fulfilled w
              \<and> SerializeJSONProperty [0x20, 0x20] [] w = Inr r
              \<and> (\<forall>xs. w = JArray xs \<longrightarrow> r \<noteq> None)
              \<and> run p argv =
                  (Normal (), \<lparr>stdout = [console_text r], stderr = [],
                               calls = [RetrievalConfig (argv ! 2)]\<rparr>)))\<close>
proof -
  have thrown: \<open>run p argv = run (stub_failing e) argv
        \<and> stdout (snd (run p argv)) = []
        \<and> (get_message e = Inr m \<and> ToString m = Inr rendering \<longrightarrow>
             run p argv =
               (Exit 1, \<lparr>stdout = [],
                         stderr = [js ''{"error":"Scraper failed: '' @ json_escape rendering @ js ''"}''],
                         calls = [RetrievalConfig (argv ! 2)]\<rparr>)
             \<and> exit_status (fst (run p argv)) = Some 1
             \<and> process_stderr (run p argv)
                 = [Line (js ''{"error":"Scraper failed: '' @ json_escape rendering @ js ''"}'')]
             \<and> JSON_parse (js ''{"error":"Scraper failed: '' @ json_escape rendering @ js ''"}'')
                 = Some (JObject [(js ''error'', JStr (js ''Scraper failed: '' @ rendering))]))\<close>
    if a: "2 < length argv \<and> argv ! 2 \<noteq> []
      \<and> p (RetrievalConfig (argv ! 2)) = Fulfilled v
      \<and> SerializeJSONProperty [0x20, 0x20] [] v = Inl e"
  proof -
    from a have valid: "2 < length argv" "argv ! 2 \<noteq> []" by simp_all
    from a have c: "p (RetrievalConfig (argv ! 2)) = Rejected e
         \<or> (\<exists>v. p (RetrievalConfig (argv ! 2)) = Fulfilled v
                \<and> SerializeJSONProperty [0x20, 0x20] [] v = Inl e)"
      by blast
    have c': "stub_failing e (RetrievalConfig (argv ! 2)) = Rejected e
         \<or> (\<exists>v. stub_failing e (RetrievalConfig (argv ! 2)) = Fulfilled v
                \<and> SerializeJSONProperty [0x20, 0x20] [] v = Inl e)"
      by (simp add: stub_failing_def)
    note here = run_caught [of argv p e, OF valid c]
    note there = run_caught [of argv "stub_failing e" e, OF valid c']
    from here there have same: "run p argv = run (stub_failing e) argv" by simp
    from here have quiet: "stdout (snd (run p argv)) = []"
      by (simp split: sum.splits)
    have report: \<open>run p argv =
               (Exit 1, \<lparr>stdout = [],
                         stderr = [js ''{"error":"Scraper failed: '' @ json_escape rendering @ js ''"}''],
                         calls = [RetrievalConfig (argv ! 2)]\<rparr>)
             \<and> exit_status (fst (run p argv)) = Some 1
             \<and> process_stderr (run p argv)
                 = [Line (js ''{"error":"Scraper failed: '' @ json_escape rendering @ js ''"}'')]
             \<and> JSON_parse (js ''{"error":"Scraper failed: '' @ json_escape rendering @ js ''"}'')
                 = Some (JObject [(js ''error'', JStr (js ''Scraper failed: '' @ rendering))])\<close>
      if mr: "get_message e = Inr m \<and> ToString m = Inr rendering"
    proof -
      from here mr have "run p argv =
          (Exit 1, \<lparr>stdout = [], stderr = [ErrorReport (js ''Scraper failed: '' @ rendering)],
                    calls = [RetrievalConfig (argv ! 2)]\<rparr>)"
        by simp
      with ErrorReport_well_formed [of "js ''Scraper failed: '' @ rendering"]
      show ?thesis
        by (simp only: ErrorReport_failed fst_conv snd_conv exit_status.simps simp_thms
            world.simps process_stderr_simps list.map)
    qed
    from same quiet report show ?thesis by blast
  qed
  have returned: "\<exists>w r. p (RetrievalConfig (argv ! 2)) = Fulfilled w
              \<and> SerializeJSONProperty [0x20, 0x20] [] w = Inr r
              \<and> (\<forall>xs. w = JArray xs \<longrightarrow> r \<noteq> None)
              \<and> run p argv =
                  (Normal (), \<lparr>stdout = [console_text r], stderr = [],
                               calls = [RetrievalConfig (argv ! 2)]\<rparr>)"
    if z: "exit_status (fst (run p argv)) = Some 0
      \<and> p (RetrievalConfig (argv ! 2)) \<noteq> Unsettled Loop_empty"
  proof (cases rule: run_cases [where argv = argv and p = p])
    case (success w r)
    moreover from success(4) have "\<forall>xs. w = JArray xs \<longrightarrow> r \<noteq> None"
      using array_gives_text by blast
    ultimately show ?thesis by blast
  next
    case (hanging l)
    with z show ?thesis by (cases l) simp_all
  qed (use z in simp_all)
  from thrown returned show ?thesis by blast
qed

theorem serialization_failure_witness:
  \<open>run (stub_returning (JArray [JBigInt 1])) [js ''node'', js ''run_scraper.js'', js ''x'']
     = (Exit 1, \<lparr>stdout = [],
                 stderr = [js ''{"error":"Scraper failed: Do not know how to serialize a BigInt"}''],
                 calls = [RetrievalConfig (js ''x'')]\<rparr>)
   \<and> run (stub_returning (JArray [JThrowing (JError (js ''RangeError'') (js ''too "deep"''))]))
        [js ''node'', js ''run_scraper.js'', js ''x'']
     = (Exit 1, \<lparr>stdout = [],
                 stderr = [js ''{"error":"Scraper failed: too '' @ [0x5C, 0x22] @ js ''deep''
                           @ [0x5C, 0x22, 0x22] @ js ''}''],
                 calls = [RetrievalConfig (js ''x'')]\<rparr>)
   \<and> run (stub_returning (JArray [])) [js ''node'', js ''run_scraper.js'', js ''x'']
     = (Normal (), \<lparr>stdout = [js ''[]''], stderr = [], calls = [RetrievalConfig (js ''x'')]\<rparr>)\<close>
proof -
  let ?argv = "[js ''node'', js ''run_scraper.js'', js ''x'']"
  let ?e = "TypeError (js ''Do not know how to serialize a BigInt'')"
  let ?r = \<open>JError (js ''RangeError'') (js ''too "deep"'')\<close>
  have valid: "2 < length ?argv" "?argv ! 2 \<noteq> []"
    by (simp_all add: js_def)
  have line: \<open>js ''{"error":"Scraper failed: ''
      @ json_escape (js ''Do not know how to serialize a BigInt'') @ js ''"}''
      = js ''{"error":"Scraper failed: Do not know how to serialize a BigInt"}''\<close>
    by (simp add: js_def is_leading_surrogate_def is_trailing_surrogate_def)
  have line': \<open>js ''{"error":"Scraper failed: '' @ json_escape (js ''too "deep"'') @ js ''"}''
      = js ''{"error":"Scraper failed: too '' @ [0x5C, 0x22] @ js ''deep''
                           @ [0x5C, 0x22, 0x22] @ js ''}''\<close>
    by (simp add: js_def is_leading_surrogate_def is_trailing_surrogate_def)
  have h: "2 < length ?argv \<and> ?argv ! 2 \<noteq> []
      \<and> stub_returning (JArray [JBigInt 1]) (RetrievalConfig (?argv ! 2)) = Fulfilled (JArray [JBigInt 1])
      \<and> SerializeJSONProperty [0x20, 0x20] [] (JArray [JBigInt 1]) = Inl ?e"
    using valid by (simp add: stub_returning_def)
  have mr: "get_message ?e = Inr (JStr (js ''Do not know how to serialize a BigInt''))
      \<and> ToString (JStr (js ''Do not know how to serialize a BigInt''))
          = Inr (js ''Do not know how to serialize a BigInt'')"
    by (simp add: TypeError_def)
  from serialization_failure [of ?argv "stub_returning (JArray [JBigInt 1])"
        "JArray [JBigInt 1]" ?e "JStr (js ''Do not know how to serialize a BigInt'')"
        "js ''Do not know how to serialize a BigInt''",
        THEN conjunct1, THEN mp, OF h, THEN conjunct2, THEN conjunct2, THEN mp, OF mr,
        THEN conjunct1]
  have thrown: \<open>run (stub_returning (JArray [JBigInt 1])) ?argv
     = (Exit 1, \<lparr>stdout = [],
                 stderr = [js ''{"error":"Scraper failed: Do not know how to serialize a BigInt"}''],
                 calls = [RetrievalConfig (js ''x'')]\<rparr>)\<close>
    unfolding line by simp
  have h': "2 < length ?argv \<and> ?argv ! 2 \<noteq> []
      \<and> stub_returning (JArray [JThrowing ?r]) (RetrievalConfig (?argv ! 2)) = Fulfilled (JArray [JThrowing ?r])
      \<and> SerializeJSONProperty [0x20, 0x20] [] (JArray [JThrowing ?r]) = Inl ?r"
    using valid by (simp add: stub_returning_def)
  have mr': \<open>get_message ?r = Inr (JStr (js ''too "deep"''))
      \<and> ToString (JStr (js ''too "deep"'')) = Inr (js ''too "deep"'')\<close>
    by simp
  from serialization_failure [of ?argv "stub_returning (JArray [JThrowing ?r])"
        "JArray [JThrowing ?r]" ?r \<open>JStr (js ''too "deep"'')\<close> \<open>js ''too "deep"''\<close>,
        THEN conjunct1, THEN mp, OF h', THEN conjunct2, THEN conjunct2, THEN mp, OF mr',
        THEN conjunct1]
  have thrown': \<open>run (stub_returning (JArray [JThrowing ?r])) ?argv
     = (Exit 1, \<lparr>stdout = [],
                 stderr = [js ''{"error":"Scraper failed: too '' @ [0x5C, 0x22] @ js ''deep''
                           @ [0x5C, 0x22, 0x22] @ js ''}''],
                 calls = [RetrievalConfig (js ''x'')]\<rparr>)\<close>
    unfolding line' by simp
  have empty: "SerializeJSONProperty [0x20, 0x20] [] (JArray []) = Inr (Some (js ''[]''))"
    by (simp add: enclose_def js_def)
  from run_fulfilled [of ?argv "stub_returning (JArray [])", OF valid _ this]
  have "exit_status (fst (run (stub_returning (JArray [])) ?argv)) = Some 0
      \<and> stub_returning (JArray []) (RetrievalConfig (?argv ! 2)) \<noteq> Unsettled Loop_empty"
    by (simp add: stub_returning_def)
  from serialization_failure [of ?argv "stub_returning (JArray [])", THEN conjunct2, THEN mp, OF this]
  obtain w r where w: "stub_returning (JArray []) (RetrievalConfig (?argv ! 2)) = Fulfilled w"
    and r: "SerializeJSONProperty [0x20, 0x20] [] w = Inr r"
    and returned: "run (stub_returning (JArray [])) ?argv =
        (Normal (), \<lparr>stdout = [console_text r], stderr = [],
                     calls = [RetrievalConfig (?argv ! 2)]\<rparr>)"
    by (elim exE conjE) (rule that)
  from w have "w = JArray []"
    by (simp add: stub_returning_def)
  with r empty have "r = Some (js ''[]'')"
    by simp
  with returned have "run (stub_returning (JArray [])) ?argv
     = (Normal (), \<lparr>stdout = [js ''[]''], stderr = [], calls = [RetrievalConfig (js ''x'')]\<rparr>)"
    by (simp add: console_text_def)
  with thrown thrown' show ?thesis by (intro conjI)
qed

theorem serialization_failure_counterexample:
  \<open>exit_status (fst (run stub_silent [js ''node'', js ''run_scraper.js'', js ''x''])) = Some 0
   \<and> stdout (snd (run stub_silent [js ''node'', js ''run_scraper.js'', js ''x''])) = []
   \<and> run (stub_returning (JArray [JThrowing JUndefined])) [js ''node'', js ''run_scraper.js'', js ''x'']
     = (Throw (TypeError (js ''Cannot read properties of undefined (reading 'message')'')),
        \<lparr>stdout = [], stderr = [], calls = [RetrievalConfig (js ''x'')]\<rparr>)
   \<and> process_stderr (run (stub_returning (JArray [JThrowing JUndefined]))
        [js ''node'', js ''run_scraper.js'', js ''x''])
     = [Uncaught (TypeError (js ''Cannot read properties of undefined (reading 'message')''))]\<close>
proof -
  let ?argv = "[js ''node'', js ''run_scraper.js'', js ''x'']"
  have valid: "2 < length ?argv" "?argv ! 2 \<noteq> []"
    by (simp_all add: js_def)
  have silent: "run stub_silent ?argv =
      (Pending Loop_empty, \<lparr>stdout = [], stderr = [], calls = [RetrievalConfig (?argv ! 2)]\<rparr>)"
    using run_unsettled [of ?argv stub_silent Loop_empty] valid
    by (simp add: stub_silent_def)
  have "run (stub_returning (JArray [JThrowing JUndefined])) ?argv
     = (Throw (TypeError (js ''Cannot read properties of undefined (reading 'message')'')),
        \<lparr>stdout = [], stderr = [], calls = [RetrievalConfig (js ''x'')]\<rparr>)"
    using run_caught [of ?argv "stub_returning (JArray [JThrowing JUndefined])" JUndefined] valid
    by (simp add: stub_returning_def)
  with silent show ?thesis by (simp add: process_stderr_simps)
qed

text \<open>
  C10. Only the first argument of the command line is read: two runs whose first
  arguments are equal (or both absent) with the same external module give the same
  calls, the same output on both streams and the same completion, whatever the other
  arguments are.
\<close>

theorem only_first_argument:
  assumes "take 1 (drop 2 argv) = take 1 (drop 2 argv')"
  shows "run p argv = run p argv'"
proof -
  from assms have "argv_at argv 2 = argv_at argv' 2"
    by (auto simp add: argv_at_2 split: list.splits)
  then show ?thesis by (simp add: run_def main_def)
qed

theorem only_first_argument_witness:
  "run (stub_failing (JStr (js ''boom''))) [js ''node'', js ''run_scraper.js'', js ''x'', js ''y'', js ''z'']
   = run (stub_failing (JStr (js ''boom''))) [js ''/usr/bin/node'', js ''s.js'', js ''x'']"
  using only_first_argument [of "[js ''node'', js ''run_scraper.js'', js ''x'', js ''y'', js ''z'']"
      "[js ''/usr/bin/node'', js ''s.js'', js ''x'']" "stub_failing (JStr (js ''boom''))"]
  by simp

end
